(* ===== verification/Prelude.thy ===== *)
theory Prelude
  imports Main
begin

text \<open>
  Shared vocabulary of the development: the JavaScript exceptions the client can raise, the outcome type of an
  operation that may throw (JavaScript keeps every side effect made before the
  throw, so an exception carries the state at the throw), the sequencing of such
  operations, JavaScript truthiness of timer handles, and the list lemmas the
  component theories share.
\<close>

named_theorems outcome_simps "evaluation rules of the outcome combinators"

type_synonym sock_id = nat
type_synonym timer_id = nat
type_synonym tag = string

text \<open>The exceptions the code can raise (JavaScript's names).\<close>

datatype js_error =
    InvalidStateError  \<comment> \<open>\<open>WebSocket.send\<close> on a socket still CONNECTING\<close>
  | SyntaxError        \<comment> \<open>\<open>JSON.parse\<close> on a malformed frame\<close>
  | TypeError          \<comment> \<open>a method called on \<open>null\<close>\<close>

type_synonym 'w outcome = "(js_error \<times> 'w) + 'w"

definition then_exc :: "'w outcome \<Rightarrow> ('w \<Rightarrow> 'w outcome) \<Rightarrow> 'w outcome" where
  "then_exc r f = (case r of Inl p \<Rightarrow> Inl p | Inr w \<Rightarrow> f w)"

fun state_of :: "'w outcome \<Rightarrow> 'w" where
  "state_of (Inl (e, w)) = w"
| "state_of (Inr w) = w"

text \<open>
  An operation whose loop may not end returns \<open>'w outcome option\<close>; \<open>None\<close> is a
  computation that never returns.
\<close>

definition then_opt :: "'w outcome option \<Rightarrow> ('w \<Rightarrow> 'w outcome option) \<Rightarrow> 'w outcome option" where
  "then_opt r f = (case r of None \<Rightarrow> None | Some (Inl p) \<Rightarrow> Some (Inl p) | Some (Inr w) \<Rightarrow> f w)"

lemma then_exc_simps [simp, outcome_simps]:
  "then_exc (Inl p) f = Inl p"
  "then_exc (Inr w) f = f w"
  by (simp_all add: then_exc_def)

lemma then_opt_simps [simp, outcome_simps]:
  "then_opt None f = None"
  "then_opt (Some (Inl p)) f = Some (Inl p)"
  "then_opt (Some (Inr w)) f = f w"
  by (simp_all add: then_opt_def)

lemma then_exc_assoc [outcome_simps]:
  "then_exc (then_exc r f) g = then_exc r (\<lambda>w. then_exc (f w) g)"
  by (cases r) simp_all

lemma then_exc_eq_Inr [outcome_simps]:
  "then_exc r f = Inr w' \<longleftrightarrow> (\<exists>w. r = Inr w \<and> f w = Inr w')"
  by (cases r) auto

text \<open>
  JavaScript truthiness of a timer handle: \<open>null\<close> and \<open>0\<close> are falsy.  Browsers
  hand out positive handles, which the invariant of the system records.
\<close>

fun handle_set :: "nat option \<Rightarrow> bool" where
  "handle_set None = False"
| "handle_set (Some h) = (h \<noteq> 0)"

lemma handle_set_iff: "handle_set x \<longleftrightarrow> (\<exists>h. x = Some h \<and> h \<noteq> 0)"
  by (cases x) simp_all

fun opt_list :: "'a option \<Rightarrow> 'a list" where
  "opt_list None = []"
| "opt_list (Some x) = [x]"

lemma length_opt_list [simp]: "length (opt_list x) \<le> Suc 0"
  by (cases x) simp_all

lemma opt_list_eq_Nil [simp]: "opt_list x = [] \<longleftrightarrow> x = None"
  by (cases x) simp_all

lemma opt_list_eq_single [simp]: "opt_list x = [i] \<longleftrightarrow> x = Some i"
  by (cases x) simp_all

lemma snd_comp_Pair [simp]: "snd \<circ> Pair s = id"
  by (rule ext) simp

end
