(* ===== verification/Json.thy ===== *)
theory Json
  imports Prelude
begin

text \<open>
  The JSON values the client exchanges and the two browser built-ins it calls on
  them, \<open>JSON.stringify\<close> (src/src/WebSocketManager.js lines 62 and 95) and
  \<open>JSON.parse\<close> (line 36), modelled from ECMA-262 (they are not code of the
  repository).  A JavaScript object is an association list in its property
  enumeration order: array-index keys first in ascending order, then the other keys
  in creation order.  Strings are lists of 8-bit characters and numbers are
  integers.
\<close>

datatype json =
    JNull
  | JBool bool
  | JNum int
  | JStr string
  | JArr "json list"
  | JObj "(string \<times> json) list"

type_synonym message = json

subsection \<open>\<open>JSON.stringify\<close>\<close>

text \<open>Digits of a natural number, most significant first.\<close>

fun nat_text :: "nat \<Rightarrow> string" where
  "nat_text n = (if n < 10 then [char_of (48 + n)] else nat_text (n div 10) @ [char_of (48 + n mod 10)])"

definition num_text :: "int \<Rightarrow> string" where
  "num_text i = (if i < 0 then CHR ''-'' # nat_text (nat (- i)) else nat_text (nat i))"

definition hex_digit :: "nat \<Rightarrow> char" where
  "hex_digit n = (if n < 10 then char_of (48 + n) else char_of (87 + n))"

text \<open>QuoteJSONString: the short escapes, \<open>\u00xx\<close> for the other control characters.\<close>

definition quote_char :: "char \<Rightarrow> string" where
  "quote_char c =
     (if c = CHR 0x22 then [CHR 0x5C, CHR 0x22]
      else if c = CHR 0x5C then [CHR 0x5C, CHR 0x5C]
      else if c = CHR 0x08 then [CHR 0x5C, CHR ''b'']
      else if c = CHR 0x0C then [CHR 0x5C, CHR ''f'']
      else if c = CHR 0x0A then [CHR 0x5C, CHR ''n'']
      else if c = CHR 0x0D then [CHR 0x5C, CHR ''r'']
      else if c = CHR 0x09 then [CHR 0x5C, CHR ''t'']
      else if of_char c < (32::nat)
      then [CHR 0x5C, CHR ''u'', CHR ''0'', CHR ''0'',
            hex_digit (of_char c div 16), hex_digit (of_char c mod 16)]
      else [c])"

definition quote :: "string \<Rightarrow> string" where
  "quote s = CHR 0x22 # concat (map quote_char s) @ [CHR 0x22]"

text \<open>The lexical tokens of JSON text.\<close>

datatype token = LBrace | RBrace | LBrack | RBrack | Colon | Comma
  | TStr string | TNum int | TTrue | TFalse | TNull

fun tok_text :: "token \<Rightarrow> string" where
  "tok_text LBrace = ''{''"
| "tok_text RBrace = ''}''"
| "tok_text LBrack = ''[''"
| "tok_text RBrack = '']''"
| "tok_text Colon = '':''"
| "tok_text Comma = '',''"
| "tok_text (TStr s) = quote s"
| "tok_text (TNum i) = num_text i"
| "tok_text TTrue = ''true''"
| "tok_text TFalse = ''false''"
| "tok_text TNull = ''null''"

fun sep_tokens :: "token list list \<Rightarrow> token list" where
  "sep_tokens [] = []"
| "sep_tokens [x] = x"
| "sep_tokens (x # y # xs) = x @ Comma # sep_tokens (y # xs)"

text \<open>SerializeJSONProperty, without whitespace (no \<open>space\<close> argument is passed).\<close>

fun tokens_of :: "json \<Rightarrow> token list" where
  "tokens_of JNull = [TNull]"
| "tokens_of (JBool b) = [if b then TTrue else TFalse]"
| "tokens_of (JNum i) = [TNum i]"
| "tokens_of (JStr s) = [TStr s]"
| "tokens_of (JArr vs) = LBrack # sep_tokens (map tokens_of vs) @ [RBrack]"
| "tokens_of (JObj ms) =
     LBrace # sep_tokens (map (\<lambda>m. TStr (fst m) # Colon # tokens_of (snd m)) ms) @ [RBrace]"

definition stringify :: "json \<Rightarrow> string" where
  "stringify v = concat (map tok_text (tokens_of v))"

subsection \<open>\<open>JSON.parse\<close>: the lexer\<close>

definition json_ws :: string where
  "json_ws = [CHR 0x20, CHR 0x09, CHR 0x0A, CHR 0x0D]"

definition json_digit :: "char \<Rightarrow> bool" where
  "json_digit c \<longleftrightarrow> (48::nat) \<le> of_char c \<and> of_char c \<le> (57::nat)"

definition digits_val :: "string \<Rightarrow> nat" where
  "digits_val ds = foldl (\<lambda>n d. 10 * n + (of_char d - 48)) 0 ds"

definition hex_val :: "char \<Rightarrow> nat option" where
  "hex_val c =
     (let n = of_char c in
      if 48 \<le> n \<and> n \<le> 57 then Some (n - 48)
      else if 97 \<le> n \<and> n \<le> 102 then Some (n - 87)
      else if 65 \<le> n \<and> n \<le> 70 then Some (n - 55)
      else None)"

definition hex4 :: "char \<Rightarrow> char \<Rightarrow> char \<Rightarrow> char \<Rightarrow> nat option" where
  "hex4 a b c d =
     (case (hex_val a, hex_val b, hex_val c, hex_val d) of
        (Some x, Some y, Some z, Some u) \<Rightarrow> Some (((x * 16 + y) * 16 + z) * 16 + u)
      | _ \<Rightarrow> None)"

text \<open>The single-character escapes \<open>\" \\ \/ \b \f \n \r \t\<close>.\<close>

definition unescape :: "char \<Rightarrow> char option" where
  "unescape e =
     (if e = CHR 0x22 then Some (CHR 0x22) else if e = CHR 0x5C then Some (CHR 0x5C)
      else if e = CHR ''/'' then Some (CHR ''/'') else if e = CHR ''b'' then Some (CHR 0x08)
      else if e = CHR ''f'' then Some (CHR 0x0C) else if e = CHR ''n'' then Some (CHR 0x0A)
      else if e = CHR ''r'' then Some (CHR 0x0D) else if e = CHR ''t'' then Some (CHR 0x09)
      else None)"

definition prepend :: "char \<Rightarrow> (string \<times> string) option \<Rightarrow> (string \<times> string) option" where
  "prepend c r = map_option (\<lambda>(s, rest). (c # s, rest)) r"

text \<open>
  The body of a string literal after its opening quote: the decoded string and the
  text after the closing quote.  A \<open>\u\<close> escape above \<open>0xFF\<close> names a code unit
  that an 8-bit character cannot hold and is rejected.
\<close>

fun lex_str :: "string \<Rightarrow> (string \<times> string) option" where
  "lex_str [] = None"
| "lex_str (c # cs) =
     (if c = CHR 0x22 then Some ([], cs)
      else if c = CHR 0x5C then
        (case cs of
           [] \<Rightarrow> None
         | e # r \<Rightarrow>
             (case unescape e of
                Some u \<Rightarrow> prepend u (lex_str r)
              | None \<Rightarrow>
                  (if e = CHR ''u'' then
                     (case r of
                        a # b # x # y # r' \<Rightarrow>
                          (case hex4 a b x y of
                             Some n \<Rightarrow> (if n < 256 then prepend (char_of n) (lex_str r') else None)
                           | None \<Rightarrow> None)
                      | _ \<Rightarrow> None)
                   else None)))
      else if of_char c < (32::nat) then None
      else prepend c (lex_str cs))"

text \<open>
  The integer part of a number: \<open>0\<close>, or a non-zero digit and the digits after it.
  A fraction or an exponent part is outside the model (numbers are integers).
\<close>

definition lex_nat :: "string \<Rightarrow> (nat \<times> string) option" where
  "lex_nat s =
     (case s of
        [] \<Rightarrow> None
      | c # r \<Rightarrow>
          (if c = CHR ''0'' then Some (0, r)
           else if json_digit c then Some (digits_val (c # takeWhile json_digit r), dropWhile json_digit r)
           else None))"

definition lex_num :: "bool \<Rightarrow> string \<Rightarrow> (int \<times> string) option" where
  "lex_num neg s =
     (case lex_nat s of
        None \<Rightarrow> None
      | Some (n, r) \<Rightarrow>
          (case r of
             c # _ \<Rightarrow> (if c = CHR ''.'' \<or> c = CHR ''e'' \<or> c = CHR ''E'' then None
                       else Some (if neg then - int n else int n, r))
           | [] \<Rightarrow> Some (if neg then - int n else int n, r)))"

definition punct :: "char \<Rightarrow> token option" where
  "punct c =
     (if c = CHR ''{'' then Some LBrace else if c = CHR ''}'' then Some RBrace
      else if c = CHR ''['' then Some LBrack else if c = CHR '']'' then Some RBrack
      else if c = CHR '':'' then Some Colon else if c = CHR '','' then Some Comma
      else None)"

function lex :: "string \<Rightarrow> token list option" where
  "lex [] = Some []"
| "lex (c # cs) =
     (if c \<in> set json_ws then lex cs
      else case punct c of
        Some t \<Rightarrow> map_option (Cons t) (lex cs)
      | None \<Rightarrow>
          (if c = CHR 0x22 then
             (case lex_str cs of None \<Rightarrow> None | Some (s, r) \<Rightarrow> map_option (Cons (TStr s)) (lex r))
           else if c = CHR ''-'' then
             (case lex_num True cs of None \<Rightarrow> None | Some (i, r) \<Rightarrow> map_option (Cons (TNum i)) (lex r))
           else if json_digit c then
             (case lex_num False (c # cs) of None \<Rightarrow> None | Some (i, r) \<Rightarrow> map_option (Cons (TNum i)) (lex r))
           else if c = CHR ''t'' \<and> take 3 cs = ''rue'' then map_option (Cons TTrue) (lex (drop 3 cs))
           else if c = CHR ''f'' \<and> take 4 cs = ''alse'' then map_option (Cons TFalse) (lex (drop 4 cs))
           else if c = CHR ''n'' \<and> take 3 cs = ''ull'' then map_option (Cons TNull) (lex (drop 3 cs))
           else None))"
  by pat_completeness auto
termination
proof -
  have pre: "prepend c r = Some (x, rest) \<longleftrightarrow> (\<exists>s. r = Some (s, rest) \<and> x = c # s)"
    for c r x rest by (cases r) (auto simp: prepend_def)
  have str: "lex_str s = Some (x, r) \<Longrightarrow> length r < length s" for s x r
  proof (induction s arbitrary: x rule: lex_str.induct)
    case (2 c cs)
    consider (q) "c = CHR 0x22" | (b) "c = CHR 0x5C" | (o) "c \<noteq> CHR 0x22" "c \<noteq> CHR 0x5C"
      by blast
    then show ?case
    proof cases
      case q
      with "2.prems" show ?thesis by simp
    next
      case b
      then have nq: "c \<noteq> CHR 0x22" by simp
      from b obtain e r0 where cs: "cs = e # r0" using "2.prems" by (cases cs) auto
      show ?thesis
      proof (cases "unescape e")
        case (Some u)
        with "2.prems" b cs obtain x' where "lex_str r0 = Some (x', r)" by (auto simp: pre)
        with "2.IH"(2) [OF nq b cs Some] cs show ?thesis by fastforce
      next
        case None
        with "2.prems" b cs obtain a1 a2 a3 a4 r' n where
          r0: "r0 = a1 # a2 # a3 # a4 # r'" and h: "hex4 a1 a2 a3 a4 = Some n" and n: "n < 256"
          and l: "lex_str r' = Some (tl x, r)"
          by (auto simp: pre split: if_splits list.splits option.splits)
        then have "e = CHR ''u''" using "2.prems" b cs None by (auto split: if_splits)
        from "2.IH"(1) [OF nq b cs None this r0 refl refl refl h n l] r0 cs show ?thesis by simp
      qed
    next
      case o
      with "2.prems" obtain x' where l: "lex_str cs = Some (x', r)" and "\<not> of_char c < (32::nat)"
        by (auto simp: pre split: if_splits)
      from "2.IH"(3) [OF o this(2) l] show ?thesis by simp
    qed
  qed simp
  have num: "lex_num neg s = Some (i, r) \<Longrightarrow> length r < length s" for neg s i r
    by (auto simp: lex_num_def lex_nat_def less_Suc_eq_le length_dropWhile_le
        split: list.splits option.splits if_splits)
  show ?thesis by (relation "measure length") (auto dest: str num)
qed

subsection \<open>\<open>JSON.parse\<close>: the parser\<close>

text \<open>
  A property key that is an array index (the canonical decimal text of a number below
  \<open>2^32 - 1\<close>) is enumerated before the other keys, in ascending order.
\<close>

definition index_of :: "string \<Rightarrow> nat option" where
  "index_of k =
     (if k \<noteq> [] \<and> list_all json_digit k \<and> (k = ''0'' \<or> hd k \<noteq> CHR ''0'') \<and>
         digits_val k < 4294967295
      then Some (digits_val k) else None)"

definition below_index :: "nat \<Rightarrow> string \<Rightarrow> bool" where
  "below_index n j = (case index_of j of Some m \<Rightarrow> m < n | None \<Rightarrow> False)"

text \<open>
  CreateDataProperty on an ordinary object: an existing key keeps its position and
  takes the new value; a new key is enumerated last, or among the array indices by
  its value.
\<close>

definition obj_set :: "string \<Rightarrow> json \<Rightarrow> (string \<times> json) list \<Rightarrow> (string \<times> json) list" where
  "obj_set k v ms =
     (if k \<in> set (map fst ms) then map (\<lambda>m. if fst m = k then (k, v) else m) ms
      else case index_of k of
        None \<Rightarrow> ms @ [(k, v)]
      | Some n \<Rightarrow> takeWhile (below_index n \<circ> fst) ms @ (k, v) # dropWhile (below_index n \<circ> fst) ms)"

text \<open>
  The parser is a deterministic pushdown automaton over the tokens: the stack holds
  the arrays and objects being built (an array's elements in reverse), the mode says
  what the grammar allows next.
\<close>

datatype ctx = CArr "json list" | CObj "(string \<times> json) list" | CKey "(string \<times> json) list" string

datatype mode = MVal | MValOrClose | MKey | MKeyOrClose | MColon string | MDone json

type_synonym pstate = "ctx list \<times> mode"

definition start_val :: "ctx list \<Rightarrow> token \<Rightarrow> pstate option" where
  "start_val stk t =
     (case t of
        TNull \<Rightarrow> Some (stk, MDone JNull)
      | TTrue \<Rightarrow> Some (stk, MDone (JBool True))
      | TFalse \<Rightarrow> Some (stk, MDone (JBool False))
      | TNum i \<Rightarrow> Some (stk, MDone (JNum i))
      | TStr s \<Rightarrow> Some (stk, MDone (JStr s))
      | LBrack \<Rightarrow> Some (CArr [] # stk, MValOrClose)
      | LBrace \<Rightarrow> Some (CObj [] # stk, MKeyOrClose)
      | _ \<Rightarrow> None)"

fun tstep :: "pstate \<Rightarrow> token \<Rightarrow> pstate option" where
  "tstep (stk, m) t =
     (case m of
        MVal \<Rightarrow> start_val stk t
      | MValOrClose \<Rightarrow>
          (case stk of
             CArr xs # stk' \<Rightarrow>
               (if t = RBrack then Some (stk', MDone (JArr (rev xs))) else start_val stk t)
           | _ \<Rightarrow> None)
      | MDone v \<Rightarrow>
          (case stk of
             CArr xs # stk' \<Rightarrow>
               (if t = Comma then Some (CArr (v # xs) # stk', MVal)
                else if t = RBrack then Some (stk', MDone (JArr (rev (v # xs)))) else None)
           | CKey ms k # stk' \<Rightarrow>
               (if t = Comma then Some (CObj (obj_set k v ms) # stk', MKey)
                else if t = RBrace then Some (stk', MDone (JObj (obj_set k v ms))) else None)
           | _ \<Rightarrow> None)
      | MKeyOrClose \<Rightarrow>
          (case stk of
             CObj ms # stk' \<Rightarrow>
               (case t of
                  RBrace \<Rightarrow> Some (stk', MDone (JObj ms))
                | TStr k \<Rightarrow> Some (stk, MColon k)
                | _ \<Rightarrow> None)
           | _ \<Rightarrow> None)
      | MKey \<Rightarrow> (case t of TStr k \<Rightarrow> Some (stk, MColon k) | _ \<Rightarrow> None)
      | MColon k \<Rightarrow>
          (case stk of
             CObj ms # stk' \<Rightarrow> (if t = Colon then Some (CKey ms k # stk', MVal) else None)
           | _ \<Rightarrow> None))"

fun run_tokens :: "pstate \<Rightarrow> token list \<Rightarrow> pstate option" where
  "run_tokens st [] = Some st"
| "run_tokens st (t # ts) = (case tstep st t of None \<Rightarrow> None | Some st' \<Rightarrow> run_tokens st' ts)"

text \<open>\<open>JSON.parse(text)\<close>: \<open>None\<close> is the SyntaxError it throws.\<close>

definition json_parse :: "string \<Rightarrow> json option" where
  "json_parse s =
     (case lex s of
        None \<Rightarrow> None
      | Some ts \<Rightarrow> (case run_tokens ([], MVal) ts of Some ([], MDone v) \<Rightarrow> Some v | _ \<Rightarrow> None))"

text \<open>
  A property read \<open>v.p\<close> on a parsed value: an object's own property, or
  \<open>undefined\<close> (here \<open>None\<close>) on any other value; reading a property of
  \<open>null\<close> throws and is handled by the caller.
\<close>

definition get_prop :: "string \<Rightarrow> json \<Rightarrow> json option" where
  "get_prop p v = (case v of JObj ms \<Rightarrow> map_of ms p | _ \<Rightarrow> None)"

definition num_end :: "string \<Rightarrow> bool" where
  "num_end s = (case s of [] \<Rightarrow> True
     | c # _ \<Rightarrow> \<not> json_digit c \<and> c \<noteq> CHR ''.'' \<and> c \<noteq> CHR ''e'' \<and> c \<noteq> CHR ''E'')"

definition num_tok :: "token \<Rightarrow> bool" where
  "num_tok t = (case t of TNum _ \<Rightarrow> True | _ \<Rightarrow> False)"

definition toks_text :: "token list \<Rightarrow> string" where
  "toks_text ts = concat (map tok_text ts)"

text \<open>A token list whose text lexes back to it, whatever follows a closing number.\<close>

definition lexes :: "token list \<Rightarrow> bool" where
  "lexes x \<longleftrightarrow> (\<forall>s. (x \<noteq> [] \<and> num_tok (last x) \<longrightarrow> num_end s) \<longrightarrow>
     lex (toks_text x @ s) = map_option (\<lambda>ts. x @ ts) (lex s))"

definition key_before :: "string \<Rightarrow> string \<Rightarrow> bool" where
  "key_before j k =
     (case index_of k of
        None \<Rightarrow> True
      | Some b \<Rightarrow> (case index_of j of Some a \<Rightarrow> a < b | None \<Rightarrow> False))"

definition wf_obj :: "(string \<times> json) list \<Rightarrow> bool" where
  "wf_obj ms \<longleftrightarrow> distinct (map fst ms) \<and> sorted_wrt key_before (map fst ms)"

fun wf_json :: "json \<Rightarrow> bool" where
  "wf_json (JArr vs) = list_all wf_json vs"
| "wf_json (JObj ms) = (wf_obj ms \<and> list_all (\<lambda>m. wf_json (snd m)) ms)"
| "wf_json _ = True"

fun wf_ctx :: "ctx \<Rightarrow> bool" where
  "wf_ctx (CArr xs) = wf_json (JArr xs)"
| "wf_ctx (CObj ms) = wf_json (JObj ms)"
| "wf_ctx (CKey ms k) = wf_json (JObj ms)"

fun wf_pstate :: "pstate \<Rightarrow> bool" where
  "wf_pstate (stk, m) = (list_all wf_ctx stk \<and> (case m of MDone v \<Rightarrow> wf_json v | _ \<Rightarrow> True))"

declare nat_text.simps [simp del]

lemma of_char_char_of_digit [simp]: "(d::nat) < 10 \<Longrightarrow> of_char (char_of (48 + d) :: char) = (48 + d :: nat)"
  by (simp add: of_char_of)

lemma json_digit_char_of [simp]: "(d::nat) < 10 \<Longrightarrow> json_digit (char_of (48 + d))"
  by (simp add: json_digit_def)

lemma not_digit_special:
  "\<not> json_digit (CHR 0x20)"
   "\<not> json_digit (CHR 0x09)"
   "\<not> json_digit (CHR 0x0A)"
   "\<not> json_digit (CHR 0x0D)"
   "\<not> json_digit (CHR ''{'')"
   "\<not> json_digit (CHR ''}'')"
   "\<not> json_digit (CHR ''['')"
   "\<not> json_digit (CHR '']'')"
   "\<not> json_digit (CHR '':'')"
   "\<not> json_digit (CHR '','')"
   "\<not> json_digit (CHR 0x22)"
   "\<not> json_digit (CHR ''-'')"
   "\<not> json_digit (CHR ''.'')"
   "\<not> json_digit (CHR ''e'')"
   "\<not> json_digit (CHR ''E'')"
   "\<not> json_digit (CHR ''t'')"
   "\<not> json_digit (CHR ''f'')"
   "\<not> json_digit (CHR ''n'')"
  by (simp_all add: json_digit_def)

lemma json_digit_not_special:
  assumes "json_digit c"
  shows "c \<notin> set json_ws \<and> punct c = None \<and> c \<noteq> CHR 0x22 \<and> c \<noteq> CHR ''-'' \<and>
     c \<noteq> CHR ''.'' \<and> c \<noteq> CHR ''e'' \<and> c \<noteq> CHR ''E'' \<and> c \<noteq> CHR ''t'' \<and> c \<noteq> CHR ''f'' \<and> c \<noteq> CHR ''n''"
proof -
  have "c \<noteq> d" if "\<not> json_digit d" for d using assms that by auto
  with not_digit_special show ?thesis by (simp add: json_ws_def punct_def)
qed

lemma nat_text_small [simp]: "n < 10 \<Longrightarrow> nat_text n = [char_of (48 + n)]"
  by (subst nat_text.simps) simp

lemma nat_text_big [simp]:
  "\<not> n < 10 \<Longrightarrow> nat_text n = nat_text (n div 10) @ [char_of (48 + n mod 10)]"
  by (subst nat_text.simps) simp

lemma nat_text_nonempty [simp]: "nat_text n \<noteq> []"
  by (cases "n < 10") simp_all

lemma nat_text_digits: "list_all json_digit (nat_text n)"
proof (induction n rule: nat_text.induct)
  case (1 n)
  then show ?case by (cases "n < 10") simp_all
qed

lemma digits_val_snoc: "digits_val (xs @ [d]) = 10 * digits_val xs + (of_char d - 48)"
  by (simp add: digits_val_def)

lemma digits_val_nat_text [simp]: "digits_val (nat_text n) = n"
proof (induction n rule: nat_text.induct)
  case (1 n)
  show ?case
  proof (cases "n < 10")
    case True
    then show ?thesis by (simp add: digits_val_def)
  next
    case False
    with "1" show ?thesis by (simp add: digits_val_snoc)
  qed
qed

lemma nat_text_hd: "0 < n \<Longrightarrow> hd (nat_text n) \<noteq> CHR ''0''"
proof (induction n rule: nat_text.induct)
  case (1 n)
  show ?case
  proof (cases "n < 10")
    case True
    then have "of_char (hd (nat_text n)) \<noteq> (48::nat)" using "1.prems" by simp
    then show ?thesis by auto
  next
    case False
    with "1" show ?thesis by simp
  qed
qed

lemma char_of_48 [simp]: "char_of (48::nat) = CHR ''0''"
proof -
  have "of_char (CHR ''0'') = (48::nat)" by simp
  then show ?thesis by (metis char_of_char)
qed

lemma take_drop_digits:
  assumes "list_all json_digit xs" and "num_end s"
  shows "takeWhile json_digit (xs @ s) = xs" "dropWhile json_digit (xs @ s) = s"
  using assms by (induction xs) (auto simp: num_end_def split: list.splits)

lemma lex_nat_text: "num_end s \<Longrightarrow> lex_nat (nat_text n @ s) = Some (n, s)"
proof (cases "n = 0")
  case True
  then show ?thesis by (simp add: lex_nat_def)
next
  case False
  obtain c r where cr: "nat_text n = c # r" by (cases "nat_text n") auto
  have "c \<noteq> CHR ''0''" using nat_text_hd [of n] False cr by simp
  moreover have "json_digit c" "list_all json_digit r" using nat_text_digits [of n] cr by simp_all
  moreover note digits_val_nat_text [of n]
  moreover assume "num_end s"
  ultimately show ?thesis by (simp add: lex_nat_def cr take_drop_digits)
qed

lemma lex_num_text:
  "num_end s \<Longrightarrow> lex_num neg (nat_text n @ s) = Some (if neg then - int n else int n, s)"
  by (simp add: lex_num_def lex_nat_text) (auto simp: num_end_def split: list.splits)

lemma hex_val_hex_digit [simp]: "(d::nat) < 16 \<Longrightarrow> hex_val (hex_digit d) = Some d"
  by (auto simp: hex_val_def hex_digit_def of_char_of Let_def)

lemma lex_str_quote_char: "lex_str (quote_char c @ r) = prepend c (lex_str r)"
proof -
  consider "c = CHR 0x22" | "c = CHR 0x5C" | "c = CHR 0x08" | "c = CHR 0x0C" | "c = CHR 0x0A"
    | "c = CHR 0x0D" | "c = CHR 0x09"
    | (ctl) "c \<notin> {CHR 0x22, CHR 0x5C, CHR 0x08, CHR 0x0C, CHR 0x0A, CHR 0x0D, CHR 0x09}"
        "of_char c < (32::nat)"
    | (plain) "c \<notin> {CHR 0x22, CHR 0x5C, CHR 0x08, CHR 0x0C, CHR 0x0A, CHR 0x0D, CHR 0x09}"
        "\<not> of_char c < (32::nat)"
    by blast
  then show ?thesis
  proof cases
    case ctl
    let ?n = "of_char c :: nat"
    have "hex4 CHR ''0'' CHR ''0'' (hex_digit (?n div 16)) (hex_digit (?n mod 16)) = Some ?n"
    proof -
      have "?n div 16 < 16" "?n mod 16 < 16" using ctl(2) by simp_all
      moreover have "hex_val CHR ''0'' = Some 0" by (simp add: hex_val_def)
      ultimately show ?thesis by (simp add: hex4_def)
    qed
    with ctl show ?thesis by (simp add: quote_char_def unescape_def)
  next
    case plain
    then show ?thesis by (simp add: quote_char_def)
  qed (simp_all add: quote_char_def unescape_def)
qed

lemma lex_str_quote: "lex_str (concat (map quote_char x) @ CHR 0x22 # s) = Some (x, s)"
  by (induction x) (simp_all add: lex_str_quote_char prepend_def)

lemma num_end_tok_text: "\<not> num_tok u \<Longrightarrow> num_end (tok_text u @ r)"
  by (cases u) (simp_all add: num_tok_def num_end_def quote_def not_digit_special)

lemma lexes_single: "lexes [t]"
proof (cases t)
  case (TStr x)
  then show ?thesis by (simp add: lexes_def toks_text_def quote_def json_ws_def punct_def lex_str_quote)
next
  case (TNum i)
  show ?thesis
  proof (cases "i < 0")
    case True
    then show ?thesis using TNum
      by (simp add: lexes_def toks_text_def num_text_def json_ws_def punct_def num_tok_def lex_num_text)
  next
    case False
    obtain c r where cr: "nat_text (nat i) = c # r" by (cases "nat_text (nat i)") auto
    have d: "json_digit c" using nat_text_digits [of "nat i"] cr by simp
    note sp = json_digit_not_special [OF d]
    have "lex_num False (c # r @ s) = Some (i, s)" if "num_end s" for s
      using lex_num_text [OF that, of False "nat i"] cr False by simp
    with False TNum cr sp d show ?thesis
      by (auto simp: lexes_def toks_text_def num_text_def num_tok_def)
  qed
qed (simp_all add: lexes_def toks_text_def json_ws_def punct_def not_digit_special)

lemma tok_text_nonempty [simp]: "tok_text t \<noteq> []"
  by (cases t) (simp_all add: quote_def num_text_def)

lemma lexes_append:
  assumes "lexes xs" "lexes ys"
    and "xs \<noteq> [] \<Longrightarrow> ys \<noteq> [] \<Longrightarrow> num_tok (last xs) \<Longrightarrow> \<not> num_tok (hd ys)"
  shows "lexes (xs @ ys)"
  unfolding lexes_def
proof (intro allI impI)
  fix s assume e: "xs @ ys \<noteq> [] \<and> num_tok (last (xs @ ys)) \<longrightarrow> num_end s"
  show "lex (toks_text (xs @ ys) @ s) = map_option (\<lambda>ts. (xs @ ys) @ ts) (lex s)"
  proof (cases ys)
    case Nil
    with assms(1) e show ?thesis by (simp add: lexes_def toks_text_def)
  next
    case (Cons y ys')
    have "xs \<noteq> [] \<and> num_tok (last xs) \<longrightarrow> num_end (toks_text ys @ s)"
      using assms(3) Cons by (auto simp: toks_text_def num_end_tok_text)
    then have "lex (toks_text xs @ toks_text ys @ s) = map_option (\<lambda>ts. xs @ ts) (lex (toks_text ys @ s))"
      using assms(1) by (simp add: lexes_def)
    moreover have "lex (toks_text ys @ s) = map_option (\<lambda>ts. ys @ ts) (lex s)"
      using assms(2) e Cons by (simp add: lexes_def)
    ultimately show ?thesis by (simp add: toks_text_def option.map_comp comp_def)
  qed
qed

lemma lexes_sep_tokens:
  "(\<And>x. x \<in> set xss \<Longrightarrow> lexes x) \<Longrightarrow> lexes (sep_tokens xss)"
proof (induction xss rule: sep_tokens.induct)
  case 1
  then show ?case by (simp add: lexes_def toks_text_def option.map_ident)
next
  case (2 x)
  then show ?case by simp
next
  case (3 x y xs)
  have "lexes (sep_tokens (y # xs))" using "3.IH" "3.prems" by simp
  then have "lexes ([Comma] @ sep_tokens (y # xs))"
    by (rule lexes_append [OF lexes_single]) (simp add: num_tok_def)
  have "lexes (x @ [Comma] @ sep_tokens (y # xs))"
  proof (rule lexes_append)
    show "lexes x" using "3.prems" by simp
  qed (use \<open>lexes ([Comma] @ sep_tokens (y # xs))\<close> in \<open>simp_all add: num_tok_def\<close>)
  then show ?case by simp
qed

lemma lexes_tokens_of: "lexes (tokens_of v)"
proof (induction v rule: tokens_of.induct)
  case (5 vs)
  have "lexes (sep_tokens (map tokens_of vs) @ [RBrack])"
    using lexes_sep_tokens [of "map tokens_of vs"] "5.IH" by (auto intro!: lexes_append lexes_single simp: num_tok_def)
  then show ?case using lexes_append [OF lexes_single [of LBrack]] by (simp add: num_tok_def)
next
  case (6 ms)
  have m: "lexes (TStr (fst m) # Colon # tokens_of (snd m))" if "m \<in> set ms" for m
    using lexes_append [OF lexes_single [of "TStr (fst m)"] lexes_append [OF lexes_single [of Colon] "6.IH" [OF that]]]
    by (simp add: num_tok_def)
  have "lexes (sep_tokens (map (\<lambda>m. TStr (fst m) # Colon # tokens_of (snd m)) ms))"
    using m by (auto intro!: lexes_sep_tokens)
  then have "lexes (sep_tokens (map (\<lambda>m. TStr (fst m) # Colon # tokens_of (snd m)) ms) @ [RBrace])"
    by (auto intro!: lexes_append lexes_single simp: num_tok_def)
  then show ?case using lexes_append [OF lexes_single [of LBrace]] by (simp add: num_tok_def)
qed (simp_all add: lexes_single)

lemma lex_stringify: "lex (stringify v) = Some (tokens_of v)"
  using lexes_tokens_of [of v, unfolded lexes_def, rule_format, of "[]"]
  by (simp add: stringify_def toks_text_def num_end_def)

lemma run_tokens_append:
  "run_tokens st (xs @ ys) = (case run_tokens st xs of None \<Rightarrow> None | Some st' \<Rightarrow> run_tokens st' ys)"
  by (induction st xs rule: run_tokens.induct) (auto split: option.splits)

lemma sep_tokens_Cons: "sep_tokens (x # xs) = x @ concat (map (\<lambda>y. Comma # y) xs)"
  by (induction xs arbitrary: x) simp_all

lemma tokens_of_hd: "\<exists>t ts. tokens_of v = t # ts \<and> t \<noteq> RBrack \<and> t \<noteq> RBrace"
  by (cases v) auto

lemma run_val_or_close:
  "run_tokens (CArr xs # stk, MValOrClose) (tokens_of v) =
   run_tokens (CArr xs # stk, MVal) (tokens_of v)"
  using tokens_of_hd [of v] by auto

lemma wf_obj_prefix: "wf_obj (xs @ ys) \<Longrightarrow> wf_obj xs"
  by (simp add: wf_obj_def sorted_wrt_append)

lemma obj_set_append: "wf_obj (ms @ [(k, v)]) \<Longrightarrow> obj_set k v ms = ms @ [(k, v)]"
proof -
  assume wf: "wf_obj (ms @ [(k, v)])"
  then have new: "k \<notin> set (map fst ms)" by (simp add: wf_obj_def)
  show ?thesis
  proof (cases "index_of k")
    case None
    with new show ?thesis by (simp add: obj_set_def)
  next
    case (Some n)
    have "key_before j k" if "j \<in> set (map fst ms)" for j
      using wf that by (auto simp: wf_obj_def sorted_wrt_append)
    then have "\<forall>m \<in> set ms. below_index n (fst m)"
      using Some by (auto simp: key_before_def below_index_def split: option.splits)
    with new Some show ?thesis by (simp add: obj_set_def takeWhile_eq_all_conv)
  qed
qed

lemma run_elems:
  assumes "\<And>x st. x \<in> set vs \<Longrightarrow> run_tokens (st, MVal) (tokens_of x) = Some (st, MDone x)"
  shows "run_tokens (CArr acc # stk, MDone v) (concat (map (\<lambda>y. Comma # y) (map tokens_of vs)) @ [RBrack]) =
         Some (stk, MDone (JArr (rev acc @ v # vs)))"
  using assms
proof (induction vs arbitrary: acc v)
  case Nil
  then show ?case by simp
next
  case (Cons x vs)
  have "run_tokens (CArr (v # acc) # stk, MVal) (tokens_of x) = Some (CArr (v # acc) # stk, MDone x)"
    using Cons.prems by simp
  with Cons.IH [of "v # acc" x] Cons.prems show ?case by (simp add: run_tokens_append)
qed

lemma run_members:
  assumes "\<And>m st. m \<in> set ms \<Longrightarrow> run_tokens (st, MVal) (tokens_of (snd m)) = Some (st, MDone (snd m))"
    and "wf_obj (acc @ (k, v) # ms)"
  shows "run_tokens (CKey acc k # stk, MDone v)
           (concat (map (\<lambda>y. Comma # y) (map (\<lambda>m. TStr (fst m) # Colon # tokens_of (snd m)) ms)) @ [RBrace]) =
         Some (stk, MDone (JObj (acc @ (k, v) # ms)))"
  using assms
proof (induction ms arbitrary: acc k v)
  case Nil
  then show ?case by (simp add: obj_set_append)
next
  case (Cons m ms)
  have set: "obj_set k v acc = acc @ [(k, v)]"
    using Cons.prems(2) wf_obj_prefix [of "acc @ [(k, v)]" "m # ms"] by (simp add: obj_set_append)
  have "run_tokens (CKey (acc @ [(k, v)]) (fst m) # stk, MVal) (tokens_of (snd m)) =
        Some (CKey (acc @ [(k, v)]) (fst m) # stk, MDone (snd m))"
    using Cons.prems(1) by simp
  with Cons.IH [of "acc @ [(k, v)]" "fst m" "snd m"] Cons.prems set show ?case
    by (simp add: run_tokens_append)
qed

lemma run_tokens_of: "wf_json v \<Longrightarrow> run_tokens (st, MVal) (tokens_of v) = Some (st, MDone v)"
proof (induction v arbitrary: st rule: tokens_of.induct)
  case (5 vs)
  show ?case
  proof (cases vs)
    case Nil
    then show ?thesis by (simp add: start_val_def)
  next
    case (Cons x xs)
    have "run_tokens (CArr [] # st, MValOrClose) (tokens_of x @ rest) =
          run_tokens (CArr [] # st, MDone x) rest" for rest
      using "5.IH" [of x "CArr [] # st"] "5.prems" Cons by (simp add: run_val_or_close run_tokens_append)
    then show ?thesis
      using run_elems [of xs "[]" st x] "5.IH" "5.prems" Cons
      by (simp add: sep_tokens_Cons list_all_iff start_val_def)
  qed
next
  case (6 ms)
  show ?case
  proof (cases ms)
    case Nil
    then show ?thesis by (simp add: start_val_def)
  next
    case (Cons m ms')
    have "run_tokens (CKey [] (fst m) # st, MVal) (tokens_of (snd m) @ rest) =
          run_tokens (CKey [] (fst m) # st, MDone (snd m)) rest" for rest
      using "6.IH" [of m "CKey [] (fst m) # st"] "6.prems" Cons by (simp add: run_tokens_append)
    then show ?thesis
      using run_members [of ms' "[]" "fst m" "snd m" st] "6.IH" "6.prems" Cons
      by (simp add: sep_tokens_Cons list_all_iff start_val_def)
  qed
qed (simp_all add: start_val_def)

lemma json_roundtrip: "wf_json v \<Longrightarrow> json_parse (stringify v) = Some v"
  by (simp add: json_parse_def lex_stringify run_tokens_of)

lemma digit_char_of_of_char: "json_digit d \<Longrightarrow> char_of ((48::nat) + (of_char d - 48)) = d"
proof -
  assume "json_digit d"
  then have "(48::nat) + (of_char d - 48) = of_char d" by (simp add: json_digit_def)
  then show ?thesis by simp
qed

lemma nat_text_digits_val:
  "list_all json_digit ds \<Longrightarrow> ds \<noteq> [] \<Longrightarrow> (ds = ''0'' \<or> hd ds \<noteq> CHR ''0'') \<Longrightarrow>
   nat_text (digits_val ds) = ds"
proof (induction ds rule: rev_induct)
  case Nil
  then show ?case by simp
next
  case (snoc d xs)
  have dd: "json_digit d" "of_char d - 48 < (10::nat)"
    using snoc.prems(1) by (auto simp: json_digit_def)
  show ?case
  proof (cases "xs = []")
    case True
    then show ?thesis using dd by (simp add: digits_val_def digit_char_of_of_char)
  next
    case False
    then have h: "hd xs \<noteq> CHR ''0''" using snoc.prems(3) by (cases xs) auto
    have ih: "nat_text (digits_val xs) = xs" using snoc.IH snoc.prems(1) False h by simp
    have "digits_val xs \<noteq> 0"
    proof
      assume "digits_val xs = 0"
      then have "xs = ''0''" using ih by simp
      with h show False by simp
    qed
    then have "\<not> digits_val (xs @ [d]) < 10" by (simp add: digits_val_snoc)
    then show ?thesis using ih dd by (simp add: digits_val_snoc digit_char_of_of_char)
  qed
qed

lemma index_of_text: "index_of j = Some n \<Longrightarrow> j = nat_text n"
proof -
  assume a: "index_of j = Some n"
  then have c: "j \<noteq> []" "list_all json_digit j" "j = ''0'' \<or> hd j \<noteq> CHR ''0''" "digits_val j = n"
    by (simp_all add: index_of_def split: if_splits)
  from nat_text_digits_val [OF c(2) c(1) c(3)] c(4) show ?thesis by simp
qed

lemma index_of_inj: "index_of j = Some n \<Longrightarrow> index_of k = Some n \<Longrightarrow> j = k"
  using index_of_text by blast

lemma dropWhile_index_above:
  assumes "sorted_wrt key_before (map fst ms)" "k \<notin> set (map fst ms)" "index_of k = Some n"
    and "b \<in> set (map fst (dropWhile (below_index n \<circ> fst) ms))" "index_of b = Some y"
  shows "n < y"
  using assms
proof (induction ms)
  case Nil
  then show ?case by simp
next
  case (Cons m ms)
  show ?case
  proof (cases "below_index n (fst m)")
    case True
    with Cons show ?thesis by simp
  next
    case False
    then have m: "index_of (fst m) = Some y0 \<Longrightarrow> n \<le> y0" for y0
      by (simp add: below_index_def)
    have "fst m \<noteq> k" using Cons.prems(2) by auto
    then have mn: "index_of (fst m) \<noteq> Some n" using Cons.prems(3) index_of_inj by blast
    consider "b = fst m" | "b \<in> set (map fst ms)" using Cons.prems(4) False by auto
    then show ?thesis
    proof cases
      case 1
      with m mn Cons.prems(5) show ?thesis by force
    next
      case 2
      with Cons.prems(1) have "key_before (fst m) b" by auto
      with Cons.prems(5) obtain y0 where "index_of (fst m) = Some y0" "y0 < y"
        by (auto simp: key_before_def split: option.splits)
      with m show ?thesis by force
    qed
  qed
qed

lemma map_fst_obj_update:
  "map (fst \<circ> (\<lambda>m. if fst m = k then (k, v) else m)) ms = map fst ms"
  by (induction ms) auto

lemma wf_obj_obj_set: "wf_obj ms \<Longrightarrow> wf_obj (obj_set k v ms)"
proof -
  assume wf: "wf_obj ms"
  show ?thesis
  proof (cases "k \<in> set (map fst ms)")
    case True
    with wf show ?thesis by (simp add: obj_set_def wf_obj_def map_fst_obj_update)
  next
    case new: False
    show ?thesis
    proof (cases "index_of k")
      case None
      with wf new show ?thesis
        by (auto simp: obj_set_def wf_obj_def sorted_wrt_append key_before_def)
    next
      case (Some n)
      let ?P = "below_index n \<circ> fst"
      let ?A = "takeWhile ?P ms" and ?B = "dropWhile ?P ms"
      have ms: "ms = ?A @ ?B" by simp
      have s: "sorted_wrt key_before (map fst ?A @ map fst ?B)" "distinct (map fst ?A @ map fst ?B)"
        using wf ms by (metis map_append wf_obj_def)+
      have ak: "key_before a k" if "a \<in> set (map fst ?A)" for a
        using that Some set_takeWhileD [of _ ?P ms]
        by (fastforce simp: key_before_def below_index_def split: option.splits)
      have kb: "key_before k b" if "b \<in> set (map fst ?B)" for b
        using that dropWhile_index_above [of ms k n b] wf new Some
        by (auto simp: key_before_def wf_obj_def split: option.splits)
      have "k \<notin> set (map fst ?A) \<and> k \<notin> set (map fst ?B)"
        using new ms by (metis Un_iff map_append set_append)
      with s ak kb new Some show ?thesis
        by (simp add: obj_set_def wf_obj_def sorted_wrt_append)
    qed
  qed
qed

lemma set_obj_set: "set (obj_set k v ms) \<subseteq> insert (k, v) (set ms)"
  by (auto simp: obj_set_def dest: set_takeWhileD set_dropWhileD split: option.splits if_splits)

lemma start_val_cases:
  "start_val stk t = Some st' \<Longrightarrow>
   (\<exists>v. st' = (stk, MDone v) \<and> wf_json v) \<or> st' = (CArr [] # stk, MValOrClose) \<or>
   st' = (CObj [] # stk, MKeyOrClose)"
  by (cases t) (auto simp: start_val_def)

lemma wf_obj_Nil [simp]: "wf_obj []"
  by (simp add: wf_obj_def)

lemma wf_obj_set_values:
  "(a, b) \<in> set (obj_set k v ms) \<Longrightarrow> \<forall>m\<in>set ms. wf_json (snd m) \<Longrightarrow> wf_json v \<Longrightarrow> wf_json b"
  using set_obj_set [of k v ms] by fastforce

lemma wf_tstep: "wf_pstate st \<Longrightarrow> tstep st t = Some st' \<Longrightarrow> wf_pstate st'"
proof (induction st t rule: tstep.induct)
  case (1 stk m t)
  then show ?case
    by (auto simp: list_all_iff wf_obj_def [symmetric] wf_obj_obj_set
        split: mode.splits list.splits ctx.splits if_splits token.splits
        dest!: start_val_cases) (metis wf_obj_set_values)+
qed

lemma wf_run_tokens: "wf_pstate st \<Longrightarrow> run_tokens st ts = Some st' \<Longrightarrow> wf_pstate st'"
  by (induction st ts rule: run_tokens.induct) (auto split: option.splits dest: wf_tstep)

lemma json_parse_wf: "json_parse s = Some v \<Longrightarrow> wf_json v"
  using wf_run_tokens [of "([], MVal)"]
  by (fastforce simp: json_parse_def split: option.splits list.splits mode.splits prod.splits)

text \<open>Duplicate keys and array-index keys, as JavaScript reads them.\<close>

lemma json_parse_duplicate_keys:
  \<open>json_parse ''{"b":1, "0":[true], "b":null}'' = Some (JObj [(''0'', JArr [JBool True]), (''b'', JNull)])\<close>
  by (simp add: json_parse_def json_ws_def punct_def json_digit_def lex_num_def lex_nat_def digits_val_def
      start_val_def obj_set_def index_of_def below_index_def prepend_def)

end
