(* ===== verification/Backoff.thy ===== *)
theory Backoff
  imports Prelude
begin

text \<open>
  The reconnect policy's delay computation, \<open>scheduleReconnect\<close> in
  src/src/WebSocketManager.js line 114:
  \<^verbatim>\<open>const delay = Math.min(1000 * Math.pow(2, this.reconnectAttempts), 15000);\<close>
  \<open>reconnectAttempts\<close> is a non-negative integer, so \<open>Math.pow\<close> is exact while it is
  below \<open>2^53\<close> and becomes \<open>Infinity\<close> beyond exponent 1023; in both cases the
  minimum with 15000 is the value of the same expression over unbounded naturals,
  which is the model.  The lemmas give the delay's bounds, its doubling below the
  cap, its saturation from the fifth attempt on, and its monotonicity.
\<close>

definition backoff_delay :: "nat \<Rightarrow> nat" where
  "backoff_delay n = min (1000 * 2 ^ n) 15000"

lemma backoff_delay_small: "n \<le> 3 \<Longrightarrow> backoff_delay n = 1000 * 2 ^ n"
proof -
  assume "n \<le> 3"
  then have "(2::nat) ^ n \<le> 2 ^ 3" by (rule power_increasing) simp
  then show ?thesis by (simp add: backoff_delay_def)
qed

lemma backoff_delay_capped: "4 \<le> n \<Longrightarrow> backoff_delay n = 15000"
proof -
  assume "4 \<le> n"
  then have "(2::nat) ^ 4 \<le> 2 ^ n" by (rule power_increasing) simp
  then show ?thesis by (simp add: backoff_delay_def)
qed

lemma backoff_delay_mono: "m \<le> n \<Longrightarrow> backoff_delay m \<le> backoff_delay n"
proof -
  assume "m \<le> n"
  then have "(1000::nat) * 2 ^ m \<le> 1000 * 2 ^ n" by (simp add: power_increasing)
  then show ?thesis unfolding backoff_delay_def by (rule min.mono) simp
qed

text \<open>
  C12: The reconnect delay for attempt n is 1000 * 2^n for n <= 3 and 15000 from then on; for attempts 0..4 it is 1000, 2000, 4000, 8000, 15000.
\<close>

theorem backoff_delay_closed_form:
  "backoff_delay n = (if n \<le> 3 then 1000 * 2 ^ n else 15000) \<and>
   map backoff_delay [0, 1, 2, 3, 4] = [1000, 2000, 4000, 8000, 15000]"
  by (simp add: backoff_delay_small backoff_delay_capped)

text \<open>
  C13: The reconnect delay is always between 1000 and 15000 ms and never decreases from one attempt to the next.
\<close>

theorem backoff_delay_bounds:
  "1000 \<le> backoff_delay n \<and> backoff_delay n \<le> 15000 \<and> backoff_delay n \<le> backoff_delay (Suc n)"
proof -
  have "(1::nat) \<le> 2 ^ n" by simp
  then have "1000 \<le> backoff_delay n" by (simp add: backoff_delay_def)
  moreover have "backoff_delay n \<le> backoff_delay (Suc n)" by (rule backoff_delay_mono) simp
  ultimately show ?thesis by (simp add: backoff_delay_def)
qed

end
