(* ===== verification/Runtime.thy ===== *)
theory Runtime
  imports Prelude Json
begin

text \<open>
  The browser environment the client runs in, modelled from the WHATWG WebSocket and
  HTML timer specifications (it is not code of the repository): the WebSocket objects
  with their \<open>readyState\<close> and the URL check of their constructor, the frames
  handed to the network, the timer table
  behind \<open>setTimeout\<close>/\<open>setInterval\<close>, the clock and the console.
  The operations are stated over any extension \<open>'a runtime_scheme\<close>, so that the
  manager's record, which extends this one, uses them unchanged.
\<close>

datatype ready_state = CONNECTING | OPEN | CLOSING | CLOSED

text \<open>The callbacks the client registers with the timer table.\<close>

datatype timer_cb = HeartbeatTick | ReconnectFire

record timer =
  cb :: timer_cb
  due :: nat
  period :: "nat option"  \<comment> \<open>\<open>None\<close> for \<open>setTimeout\<close>, the interval for \<open>setInterval\<close>\<close>

text \<open>
  What the code writes to the console, as far as a claim observes it (the emoji and
  the Spanish wording of the source are left out).
\<close>

datatype diag =
    DConnecting string
  | DOpened
  | DUnknownType "json option"
  | DClosed
  | DSocketError
  | DQueued message
  | DFlushing nat
  | DPingError
  | DReconnectIn nat
  | DUncaught js_error

record runtime =
  sockets :: "ready_state list"     \<comment> \<open>socket \<open>i\<close> is the \<open>i\<close>-th \<open>new WebSocket\<close>\<close>
  wire :: "(sock_id \<times> string) list"  \<comment> \<open>text frames handed to the network, in order\<close>
  timers :: "(timer_id \<times> timer) list"
  next_timer :: timer_id
  now :: nat
  console :: "diag list"

definition init_runtime :: runtime where
  "init_runtime = \<lparr>sockets = [], wire = [], timers = [], next_timer = 1, now = 0, console = []\<rparr>"

definition log :: "diag \<Rightarrow> 'a runtime_scheme \<Rightarrow> 'a runtime_scheme" where
  "log d r = r\<lparr>console := console r @ [d]\<rparr>"

text \<open>A task that ends with an uncaught exception: the browser reports it, the effects stay.\<close>

definition settle :: "'a runtime_scheme outcome \<Rightarrow> 'a runtime_scheme" where
  "settle r = (case r of Inl (e, w) \<Rightarrow> log (DUncaught e) w | Inr w \<Rightarrow> w)"

text \<open>\<open>readyState\<close> of a socket; a handle the runtime never made reads as closed.\<close>

definition sock_state :: "ready_state list \<Rightarrow> sock_id \<Rightarrow> ready_state" where
  "sock_state ss s = (if s < length ss then ss ! s else CLOSED)"

abbreviation ready_state :: "'a runtime_scheme \<Rightarrow> sock_id \<Rightarrow> ready_state" where
  "ready_state r s \<equiv> sock_state (sockets r) s"

definition set_ready :: "sock_id \<Rightarrow> ready_state \<Rightarrow> 'a runtime_scheme \<Rightarrow> 'a runtime_scheme" where
  "set_ready s st r = r\<lparr>sockets := (sockets r)[s := st]\<rparr>"

subsection \<open>WebSocket operations\<close>

text \<open>
  The URL check of the \<open>WebSocket\<close> constructor.  The URL parser reads a scheme
  when the text starts with an ASCII letter followed by letters, digits, \<open>+\<close>,
  \<open>-\<close> or \<open>.\<close> up to a colon (lower-cased); otherwise the text is relative and
  resolves against the page's http(s) URL.  The constructor maps http(s) to ws(s),
  and throws SyntaxError for any other scheme and for a fragment.
\<close>

definition ascii_alpha :: "char \<Rightarrow> bool" where
  "ascii_alpha c \<longleftrightarrow> (let n = of_char c :: nat in (65 \<le> n \<and> n \<le> 90) \<or> (97 \<le> n \<and> n \<le> 122))"

definition scheme_char :: "char \<Rightarrow> bool" where
  "scheme_char c \<longleftrightarrow>
     ascii_alpha c \<or> (48 \<le> (of_char c :: nat) \<and> (of_char c :: nat) \<le> 57) \<or> c \<in> {CHR ''+'', CHR ''-'', CHR ''.''}"

definition ascii_lower :: "char \<Rightarrow> char" where
  "ascii_lower c = (if 65 \<le> (of_char c :: nat) \<and> (of_char c :: nat) \<le> 90 then char_of (of_char c + (32 :: nat)) else c)"

fun scheme_rest :: "string \<Rightarrow> string option" where
  "scheme_rest [] = None"
| "scheme_rest (c # cs) =
     (if c = CHR '':'' then Some []
      else if scheme_char c then map_option (Cons (ascii_lower c)) (scheme_rest cs) else None)"

definition url_scheme :: "string \<Rightarrow> string option" where
  "url_scheme u =
     (case u of
        [] \<Rightarrow> None
      | c # cs \<Rightarrow> (if ascii_alpha c then map_option (Cons (ascii_lower c)) (scheme_rest cs) else None))"

definition ws_url_ok :: "string \<Rightarrow> bool" where
  "ws_url_ok u \<longleftrightarrow>
     CHR ''#'' \<notin> set u \<and>
     (case url_scheme u of None \<Rightarrow> True | Some sc \<Rightarrow> sc \<in> {''ws'', ''wss'', ''http'', ''https''})"

text \<open>\<open>new WebSocket(url)\<close>: a fresh socket in state CONNECTING, or SyntaxError.\<close>

definition ws_new :: "string \<Rightarrow> 'a runtime_scheme \<Rightarrow> (js_error \<times> 'a runtime_scheme) + (sock_id \<times> 'a runtime_scheme)" where
  "ws_new u r =
     (if ws_url_ok u then Inr (length (sockets r), r\<lparr>sockets := sockets r @ [CONNECTING]\<rparr>)
      else Inl (SyntaxError, r))"

text \<open>
  \<open>ws.send(data)\<close>: throws InvalidStateError while CONNECTING, transmits while OPEN,
  and silently discards the data once CLOSING or CLOSED.
\<close>

definition ws_send :: "sock_id \<Rightarrow> string \<Rightarrow> 'a runtime_scheme \<Rightarrow> 'a runtime_scheme outcome" where
  "ws_send s m r =
     (case ready_state r s of
        CONNECTING \<Rightarrow> Inl (InvalidStateError, r)
      | OPEN \<Rightarrow> Inr (r\<lparr>wire := wire r @ [(s, m)]\<rparr>)
      | _ \<Rightarrow> Inr r)"

text \<open>\<open>ws.close()\<close>: starts the closing handshake; a no-op once CLOSING or CLOSED.\<close>

definition ws_close :: "sock_id \<Rightarrow> 'a runtime_scheme \<Rightarrow> 'a runtime_scheme" where
  "ws_close s r =
     (if ready_state r s = CONNECTING \<or> ready_state r s = OPEN then set_ready s CLOSING r else r)"

subsection \<open>Timers\<close>

definition set_timer :: "timer_cb \<Rightarrow> nat \<Rightarrow> nat option \<Rightarrow> 'a runtime_scheme \<Rightarrow> timer_id \<times> 'a runtime_scheme" where
  "set_timer k d p r =
     (next_timer r,
      r\<lparr>timers := timers r @ [(next_timer r, \<lparr>cb = k, due = now r + d, period = p\<rparr>)],
        next_timer := Suc (next_timer r)\<rparr>)"

definition setTimeout :: "timer_cb \<Rightarrow> nat \<Rightarrow> 'a runtime_scheme \<Rightarrow> timer_id \<times> 'a runtime_scheme" where
  "setTimeout k d r = set_timer k d None r"

definition setInterval :: "timer_cb \<Rightarrow> nat \<Rightarrow> 'a runtime_scheme \<Rightarrow> timer_id \<times> 'a runtime_scheme" where
  "setInterval k d r = set_timer k d (Some d) r"

text \<open>\<open>clearTimeout\<close> and \<open>clearInterval\<close> share the handle space and remove the entry.\<close>

definition clear_timer :: "timer_id \<Rightarrow> 'a runtime_scheme \<Rightarrow> 'a runtime_scheme" where
  "clear_timer i r = r\<lparr>timers := filter (\<lambda>(j, _). j \<noteq> i) (timers r)\<rparr>"

text \<open>An interval timer that fires is due again one period later.\<close>

fun resched_entry :: "timer_id \<Rightarrow> nat \<Rightarrow> timer_id \<times> timer \<Rightarrow> timer_id \<times> timer" where
  "resched_entry i d (j, t) = (if j = i then (j, t\<lparr>due := d\<rparr>) else (j, t))"

definition reschedule :: "timer_id \<Rightarrow> nat \<Rightarrow> 'a runtime_scheme \<Rightarrow> 'a runtime_scheme" where
  "reschedule i d r = r\<lparr>timers := map (resched_entry i d) (timers r)\<rparr>"

text \<open>The handles of the pending timers that run a given callback.\<close>

definition timer_ids :: "timer_cb \<Rightarrow> (timer_id \<times> timer) list \<Rightarrow> timer_id list" where
  "timer_ids k ts = map fst (filter (\<lambda>(_, t). cb t = k) ts)"

text \<open>The sockets not yet CLOSED: the transport adapters the manager still owns.\<close>

definition live_count :: "'a runtime_scheme \<Rightarrow> nat" where
  "live_count r = length (filter (\<lambda>st. st \<noteq> CLOSED) (sockets r))"

lemma settle_fields [simp]:
  "wire (settle x) = wire (state_of x)" "sockets (settle x) = sockets (state_of x)"
  "timers (settle x) = timers (state_of x)" "now (settle x) = now (state_of x)"
  by (cases x, auto simp: settle_def log_def)+

lemma sock_state_append [simp]:
  "sock_state (ss @ [st]) s = (if s = length ss then st else sock_state ss s)"
  by (simp add: sock_state_def nth_append)

lemma sock_state_update [simp]:
  "sock_state (ss[i := st]) s = (if s = i \<and> i < length ss then st else sock_state ss s)"
  by (simp add: sock_state_def)

lemma sock_state_Cons [simp]:
  "sock_state (st # ss) 0 = st" "sock_state (st # ss) (Suc s) = sock_state ss s"
  by (simp_all add: sock_state_def)

lemma sock_state_live: "sock_state ss s \<noteq> CLOSED \<Longrightarrow> s < length ss"
  by (simp add: sock_state_def split: if_splits)

lemma timer_ids_append [simp]: "timer_ids k (xs @ ys) = timer_ids k xs @ timer_ids k ys"
  by (simp add: timer_ids_def)

lemma timer_ids_filter_key:
  "timer_ids k (filter (\<lambda>(j, _). j \<noteq> i) ts) = filter (\<lambda>j. j \<noteq> i) (timer_ids k ts)"
  by (induction ts) (auto simp: timer_ids_def)

lemma timer_ids_reschedule:
  "timer_ids k (map (resched_entry i d) ts) = timer_ids k ts"
proof (induction ts)
  case Nil
  then show ?case by simp
next
  case (Cons x ts)
  then show ?case by (cases x) (simp add: timer_ids_def)
qed

lemma timer_ids_single [simp]:
  "timer_ids k [(i, t)] = (if cb t = k then [i] else [])"
  by (simp add: timer_ids_def)

lemma map_of_timer_ids:
  "map_of ts i = Some t \<Longrightarrow> i \<in> set (timer_ids (cb t) ts)"
  by (induction ts) (auto simp: timer_ids_def split: if_splits)

lemma fst_comp_resched [simp]: "fst \<circ> resched_entry i d = fst"
proof
  fix x :: "timer_id \<times> timer"
  show "(fst \<circ> resched_entry i d) x = fst x" by (cases x) simp
qed

lemma timer_ids_partition:
  "length (timer_ids HeartbeatTick ts) + length (timer_ids ReconnectFire ts) = length ts"
proof (induction ts)
  case Nil
  then show ?case by (simp add: timer_ids_def)
next
  case (Cons x ts)
  then show ?case by (cases x, cases "cb (snd x)") (auto simp: timer_ids_def)
qed

end
