(* ===== verification/Manager.thy ===== *)
theory Manager
  imports Prelude Backoff Runtime
begin

text \<open>
  The class \<open>WebSocketManager\<close> of src/src/WebSocketManager.js.  Its fields are a
  record that extends the browser runtime, so one value holds the object and the
  part of the browser it acts on.  Each method is one definition; a method that may
  throw returns an \<open>outcome\<close>, and the \<open>while\<close> loop of \<open>flushMessageQueue\<close>,
  which does not end when the connection is not ready, is a partial function into
  \<open>option\<close>.  Callbacks of the presentation layer (the \<open>onOpen\<close> hook and the
  message handlers) act on the manager only through its public interface (\<open>send\<close>,
  \<open>connect\<close>, \<open>onMessage\<close>, assigning \<open>onOpen\<close>); they are modelled by the list
  of calls they make (\<open>api\<close>).
  Messages are JSON values: \<open>send\<close> hands the socket their \<open>stringify\<close>
  text and \<open>onmessage\<close> reads a frame with \<open>json_parse\<close> (theory Json).
\<close>

datatype api =
    ASend message
  | AConnect
  | AOnMessage tag "message \<Rightarrow> api list"
  | ASetOnOpen "api list option"

type_synonym handler = "message \<Rightarrow> api list"

record mgr = runtime +
  url :: string
  ws :: "sock_id option"
  messageHandlers :: "tag \<rightharpoonup> handler"
  onOpen :: "api list option"
  isReady :: bool
  messageQueue :: "message list"
  heartbeatInterval :: "timer_id option"
  reconnectTimeout :: "timer_id option"
  reconnectAttempts :: nat

definition init_mgr :: "string \<Rightarrow> mgr" where
  "init_mgr u =
     \<lparr>sockets = [], wire = [], timers = [], next_timer = 1, now = 0, console = [],
      url = u, ws = None, messageHandlers = Map.empty, onOpen = None, isReady = False,
      messageQueue = [], heartbeatInterval = None, reconnectTimeout = None,
      reconnectAttempts = 0\<rparr>"

subsection \<open>Methods\<close>

text \<open>
  \<open>connect()\<close>: a new socket replaces \<open>this.ws\<close> unconditionally.  The four
  handlers it attaches are arrow functions over \<open>this\<close>: they do not mention the
  socket they are attached to, so an event of any socket the manager ever created
  runs the same code below (see the System theory).
\<close>

definition connect :: "mgr \<Rightarrow> mgr outcome" where
  "connect w =
     (case ws_new (url w) (log (DConnecting (url w)) w) of
        Inl p \<Rightarrow> Inl p
      | Inr (s, w1) \<Rightarrow> Inr (w1\<lparr>ws := Some s\<rparr>))"

definition send :: "message \<Rightarrow> mgr \<Rightarrow> mgr outcome" where
  "send m w =
     (if isReady w
      then (case ws w of None \<Rightarrow> Inl (TypeError, w) | Some s \<Rightarrow> ws_send s (stringify m) w)
      else Inr ((log (DQueued m) w)\<lparr>messageQueue := messageQueue w @ [m]\<rparr>))"

definition onMessage :: "tag \<Rightarrow> handler \<Rightarrow> mgr \<Rightarrow> mgr" where
  "onMessage t h w = w\<lparr>messageHandlers := (messageHandlers w)(t \<mapsto> h)\<rparr>"

text \<open>
  The loop of \<open>flushMessageQueue\<close>: \<open>shift\<close> the head, then \<open>send\<close> it.  An
  exception of \<open>send\<close> leaves the loop with the head already removed.
\<close>

partial_function (option) flush_loop :: "mgr \<Rightarrow> mgr outcome option" where
  "flush_loop w =
     (case messageQueue w of
        [] \<Rightarrow> Some (Inr w)
      | m # q \<Rightarrow>
          (case send m (w\<lparr>messageQueue := q\<rparr>) of
             Inl p \<Rightarrow> Some (Inl p)
           | Inr w' \<Rightarrow> flush_loop w'))"

definition flushMessageQueue :: "mgr \<Rightarrow> mgr outcome option" where
  "flushMessageQueue w = flush_loop (log (DFlushing (length (messageQueue w))) w)"

text \<open>
  A reference for the loop: structural recursion over the messages still to send,
  each \<open>send\<close> made with the rest of the queue in place.  It is total, and the
  \<open>while\<close>/\<open>shift\<close> loop agrees with it whenever the manager is ready.
\<close>

fun flush_ref :: "message list \<Rightarrow> mgr \<Rightarrow> mgr outcome" where
  "flush_ref [] w = Inr w"
| "flush_ref (m # q) w = then_exc (send m (w\<lparr>messageQueue := q\<rparr>)) (flush_ref q)"

definition stopHeartbeat :: "mgr \<Rightarrow> mgr" where
  "stopHeartbeat w =
     (let w1 = (case heartbeatInterval w of
                  Some h \<Rightarrow> (if h \<noteq> 0 then clear_timer h w else w)
                | None \<Rightarrow> w)
      in w1\<lparr>heartbeatInterval := None\<rparr>)"

definition startHeartbeat :: "mgr \<Rightarrow> mgr" where
  "startHeartbeat w =
     (let (i, w1) = setInterval HeartbeatTick 20000 (stopHeartbeat w)
      in w1\<lparr>heartbeatInterval := Some i\<rparr>)"

definition ping :: "nat \<Rightarrow> message" where
  "ping ts = JObj [(''type'', JStr ''__ping__''), (''ts'', JNum (int ts))]"

text \<open>The body of the heartbeat interval; its \<open>try\<close>/\<open>catch\<close> reports and swallows.\<close>

definition heartbeat_tick :: "mgr \<Rightarrow> mgr" where
  "heartbeat_tick w =
     (case ws w of
        None \<Rightarrow> w
      | Some s \<Rightarrow>
          (if ready_state w s = OPEN
           then (case ws_send s (stringify (ping (now w))) w of
                   Inl (_, w') \<Rightarrow> log DPingError w'
                 | Inr w' \<Rightarrow> w')
           else w))"

definition scheduleReconnect :: "mgr \<Rightarrow> mgr" where
  "scheduleReconnect w =
     (if handle_set (reconnectTimeout w) then w
      else
        let d = backoff_delay (reconnectAttempts w);
            w1 = (log (DReconnectIn d) w)\<lparr>reconnectAttempts := Suc (reconnectAttempts w)\<rparr>;
            (i, w2) = setTimeout ReconnectFire d w1
        in w2\<lparr>reconnectTimeout := Some i\<rparr>)"

text \<open>The body of the reconnect timeout.\<close>

definition reconnect_fire :: "mgr \<Rightarrow> mgr outcome" where
  "reconnect_fire w = connect (w\<lparr>reconnectTimeout := None\<rparr>)"

text \<open>A callback of the presentation layer, run as the calls it makes.\<close>

fun run_api :: "api list \<Rightarrow> mgr \<Rightarrow> mgr outcome" where
  "run_api [] w = Inr w"
| "run_api (ASend m # cs) w = then_exc (send m w) (run_api cs)"
| "run_api (AConnect # cs) w = then_exc (connect w) (run_api cs)"
| "run_api (AOnMessage t h # cs) w = run_api cs (onMessage t h w)"
| "run_api (ASetOnOpen c # cs) w = run_api cs (w\<lparr>onOpen := c\<rparr>)"

subsection \<open>Socket handlers\<close>

definition on_open :: "mgr \<Rightarrow> mgr outcome option" where
  "on_open w =
     (let w1 = (log DOpened w)\<lparr>isReady := True, reconnectAttempts := 0\<rparr>;
          r = (case onOpen w1 of None \<Rightarrow> Inr w1 | Some c \<Rightarrow> run_api c w1)
      in then_opt (Some r)
           (\<lambda>w2. then_opt (flushMessageQueue w2) (\<lambda>w3. Some (Inr (startHeartbeat w3)))))"

text \<open>
  \<open>this.messageHandlers.has(message.type)\<close>: the keys are the string tags the
  presentation layer registered, so only a string \<open>type\<close> can find a handler.
\<close>

definition handler_for :: "mgr \<Rightarrow> json option \<Rightarrow> handler option" where
  "handler_for w t = (case t of Some (JStr k) \<Rightarrow> messageHandlers w k | _ \<Rightarrow> None)"

text \<open>
  \<open>onmessage\<close>: \<open>JSON.parse(event.data)\<close> throws SyntaxError on malformed text;
  reading \<open>.type\<close> of \<open>null\<close> throws TypeError; otherwise the handler for the
  type runs, or the unknown type is logged.
\<close>

definition on_message :: "string \<Rightarrow> mgr \<Rightarrow> mgr outcome" where
  "on_message d w =
     (case json_parse d of
        None \<Rightarrow> Inl (SyntaxError, w)
      | Some m \<Rightarrow>
          (if m = JNull then Inl (TypeError, w)
           else case handler_for w (get_prop ''type'' m) of
             Some h \<Rightarrow> run_api (h m) w
           | None \<Rightarrow> Inr (log (DUnknownType (get_prop ''type'' m)) w)))"

definition on_close :: "mgr \<Rightarrow> mgr" where
  "on_close w = scheduleReconnect (stopHeartbeat ((log DClosed w)\<lparr>isReady := False\<rparr>))"

definition on_error :: "mgr \<Rightarrow> mgr outcome" where
  "on_error w =
     (let w1 = log DSocketError w
      in case ws w1 of None \<Rightarrow> Inl (TypeError, w1) | Some s \<Rightarrow> Inr (ws_close s w1))"

fun run_timer_cb :: "timer_cb \<Rightarrow> mgr \<Rightarrow> mgr" where
  "run_timer_cb HeartbeatTick w = heartbeat_tick w"
| "run_timer_cb ReconnectFire w = settle (reconnect_fire w)"

subsection \<open>Frame of the methods that leave the timers alone\<close>

text \<open>
  \<open>quiet w w'\<close>: the step from \<open>w\<close> to \<open>w'\<close> leaves the timer table, the clock,
  the two timer handles, the ready flag and the URL as they were, and sets
  \<open>this.ws\<close> if anything.  Sending, connecting, running a callback and flushing are quiet; the
  invariant of the System theory is kept by every quiet step.
\<close>

definition timer_view :: "mgr \<Rightarrow> (timer_id \<times> timer) list \<times> timer_id \<times> nat \<times> timer_id option \<times> timer_id option" where
  "timer_view w = (timers w, next_timer w, now w, heartbeatInterval w, reconnectTimeout w)"

definition quiet :: "mgr \<Rightarrow> mgr \<Rightarrow> bool" where
  "quiet w w' \<longleftrightarrow> timer_view w' = timer_view w \<and> isReady w' = isReady w \<and> url w' = url w \<and>
     (ws w' = None \<longrightarrow> ws w = None \<and> length (sockets w') \<le> length (sockets w))"

subsection \<open>The outbound stream: FIFO refinement\<close>

text \<open>
  The abstract view of everything the client has accepted for sending: the frames
  handed to sockets, then the queue.  \<open>accepting\<close> is the condition under which
  \<open>send\<close> behaves as the enqueue of a FIFO queue on this view.
\<close>

definition outbound :: "mgr \<Rightarrow> string list" where
  "outbound w = map snd (wire w) @ map stringify (messageQueue w)"

definition transmits :: "mgr \<Rightarrow> bool" where
  "transmits w = (case ws w of None \<Rightarrow> False | Some s \<Rightarrow> ready_state w s = OPEN)"

definition accepting :: "mgr \<Rightarrow> bool" where
  "accepting w \<longleftrightarrow> \<not> isReady w \<or> (transmits w \<and> messageQueue w = [])"

text \<open>Concrete states used by the witnesses below.\<close>

definition msg_join :: message where
  "msg_join = JObj [(''type'', JStr ''join''), (''room'', JStr ''r1'')]"

definition ready_demo :: mgr where
  "ready_demo = (init_mgr ''wss://signal'')
     \<lparr>sockets := [OPEN], ws := Some 0, isReady := True, messageQueue := [msg_join]\<rparr>"

definition opening_demo :: mgr where
  "opening_demo = (init_mgr ''wss://signal'')
     \<lparr>sockets := [OPEN], ws := Some 0, messageQueue := [msg_join]\<rparr>"

definition stale_demo :: mgr where
  "stale_demo = (init_mgr ''wss://signal'')
     \<lparr>sockets := [OPEN, CONNECTING], ws := Some 1, isReady := True\<rparr>"

lemma signal_url_ok [simp]: "ws_url_ok ''wss://signal''"
  by (simp add: ws_url_ok_def url_scheme_def ascii_alpha_def scheme_char_def ascii_lower_def)

lemma quiet_refl [simp]: "quiet w w" by (simp add: quiet_def)

lemma quiet_trans: "quiet w1 w2 \<Longrightarrow> quiet w2 w3 \<Longrightarrow> quiet w1 w3"
  by (auto simp: quiet_def)

lemma quiet_send: "quiet w (state_of (send m w))"
  by (auto simp: quiet_def timer_view_def send_def ws_send_def log_def split: option.splits ready_state.splits)

lemma connect_ok:
  "ws_url_ok (url w) \<Longrightarrow>
   connect w = Inr ((log (DConnecting (url w)) w)\<lparr>sockets := sockets w @ [CONNECTING], ws := Some (length (sockets w))\<rparr>)"
  by (simp add: connect_def ws_new_def log_def)

lemma connect_bad: "\<not> ws_url_ok (url w) \<Longrightarrow> connect w = Inl (SyntaxError, log (DConnecting (url w)) w)"
  by (simp add: connect_def ws_new_def)

lemma connect_fields [simp]:
  "wire (state_of (connect w)) = wire w" "messageQueue (state_of (connect w)) = messageQueue w"
  "isReady (state_of (connect w)) = isReady w" "url (state_of (connect w)) = url w"
  by (cases "ws_url_ok (url w)", simp_all add: connect_ok connect_bad log_def)+

lemma quiet_connect: "quiet w (state_of (connect w))"
  by (cases "ws_url_ok (url w)") (simp_all add: connect_ok connect_bad quiet_def timer_view_def log_def)

lemma quiet_run_api: "quiet w (state_of (run_api cs w))"
proof (induction cs w rule: run_api.induct)
  case (2 m cs w)
  have "quiet w (state_of (send m w))" by (rule quiet_send)
  with "2" show ?case by (cases "send m w") (auto intro: quiet_trans)
next
  case (3 cs w)
  have "quiet w (state_of (connect w))" by (rule quiet_connect)
  with "3" show ?case by (cases "connect w") (auto intro: quiet_trans)
next
  case (4 t h cs w)
  have "quiet w (onMessage t h w)" by (simp add: quiet_def timer_view_def onMessage_def)
  with "4" show ?case by (auto intro: quiet_trans)
next
  case (5 c cs w)
  have "quiet w (w\<lparr>onOpen := c\<rparr>)" by (simp add: quiet_def timer_view_def)
  with "5" show ?case by (auto intro: quiet_trans)
qed simp

lemma run_api_append:
  "run_api (xs @ ys) w = then_exc (run_api xs w) (run_api ys)"
proof (induction xs w rule: run_api.induct)
  case (2 m cs w)
  then show ?case by (cases "send m w") (simp_all add: outcome_simps)
next
  case (3 cs w)
  then show ?case by (cases "connect w") (simp_all add: outcome_simps)
qed simp_all

lemma flush_loop_quiet:
  assumes "flush_loop w = Some r"
  shows "quiet w (state_of r)"
proof (rule flush_loop.raw_induct [where P = "\<lambda>w r. quiet w (state_of r)", OF _ assms])
  fix f w r
  assume IH: "\<And>w r. f w = Some r \<Longrightarrow> quiet w (state_of r)"
    and eq: "(case messageQueue w of [] \<Rightarrow> Some (Inr w)
       | m # q \<Rightarrow> (case send m (w\<lparr>messageQueue := q\<rparr>) of Inl p \<Rightarrow> Some (Inl p) | Inr w' \<Rightarrow> f w')) = Some r"
  have q0: "quiet w (w\<lparr>messageQueue := q\<rparr>)" for q by (simp add: quiet_def timer_view_def)
  show "quiet w (state_of r)"
  proof (cases "messageQueue w")
    case Nil
    with eq show ?thesis by auto
  next
    case (Cons m q)
    have qs: "quiet w (state_of (send m (w\<lparr>messageQueue := q\<rparr>)))"
      by (rule quiet_trans [OF q0 quiet_send])
    show ?thesis
    proof (cases "send m (w\<lparr>messageQueue := q\<rparr>)")
      case (Inl p)
      with eq Cons qs show ?thesis by auto
    next
      case (Inr w')
      with eq Cons have "f w' = Some r" by simp
      then have "quiet w' (state_of r)" by (rule IH)
      with qs Inr show ?thesis by (auto intro: quiet_trans)
    qed
  qed
qed

subsection \<open>Sending and flushing\<close>

lemma send_open:
  "isReady w \<Longrightarrow> ws w = Some s \<Longrightarrow> ready_state w s = OPEN \<Longrightarrow>
   send m w = Inr (w\<lparr>wire := wire w @ [(s, stringify m)]\<rparr>)"
  by (simp add: send_def ws_send_def)

lemma send_queued:
  "\<not> isReady w \<Longrightarrow> send m w = Inr ((log (DQueued m) w)\<lparr>messageQueue := messageQueue w @ [m]\<rparr>)"
  by (simp add: send_def)

lemma send_ready_keeps_queue:
  "isReady w \<Longrightarrow> send m w = Inr w' \<Longrightarrow> messageQueue w' = messageQueue w \<and> isReady w'"
  by (auto simp: send_def ws_send_def split: option.splits ready_state.splits)

lemma flush_loop_open:
  "isReady w \<Longrightarrow> ws w = Some s \<Longrightarrow> ready_state w s = OPEN \<Longrightarrow>
   flush_loop w = Some (Inr (w\<lparr>wire := wire w @ map (\<lambda>m. (s, stringify m)) (messageQueue w), messageQueue := []\<rparr>))"
proof (induction "messageQueue w" arbitrary: w)
  case Nil
  then show ?case by (simp add: flush_loop.simps)
next
  case (Cons m q w)
  let ?w1 = "w\<lparr>messageQueue := q, wire := wire w @ [(s, stringify m)]\<rparr>"
  have snd: "send m (w\<lparr>messageQueue := q\<rparr>) = Inr ?w1"
    using Cons.prems by (simp add: send_def ws_send_def split: if_splits)
  have "ready_state ?w1 s = OPEN" "isReady ?w1" "ws ?w1 = Some s" "q = messageQueue ?w1"
    using Cons.prems by (auto simp: split: if_splits)
  then have "flush_loop ?w1 = Some (Inr (?w1\<lparr>wire := wire ?w1 @ map (\<lambda>m. (s, stringify m)) q, messageQueue := []\<rparr>))"
    using Cons.hyps(1) [of ?w1] by simp
  with snd Cons.hyps(2) [symmetric] show ?case
    by (simp add: flush_loop.simps [of w])
qed

lemma flush_loop_terminates: "isReady w \<Longrightarrow> \<exists>r. flush_loop w = Some r"
proof (induction "messageQueue w" arbitrary: w)
  case Nil
  then show ?case by (simp add: flush_loop.simps)
next
  case (Cons m q w)
  show ?case
  proof (cases "send m (w\<lparr>messageQueue := q\<rparr>)")
    case (Inl p)
    with Cons.hyps(2) [symmetric] show ?thesis by (simp add: flush_loop.simps [of w])
  next
    case (Inr w')
    with Cons.prems have "messageQueue w' = q \<and> isReady w'"
      using send_ready_keeps_queue [of "w\<lparr>messageQueue := q\<rparr>" m w'] by simp
    with Cons.hyps(1) obtain r where "flush_loop w' = Some r" by blast
    with Inr Cons.hyps(2) [symmetric] show ?thesis by (simp add: flush_loop.simps [of w])
  qed
qed

text \<open>
  C4: While the manager is ready, the while/shift loop of flushMessageQueue returns and equals the structural recursion that sends each queued message in turn with the rest of the queue in place, on the error path as well.
\<close>

theorem flush_loop_equiv_ref:
  "isReady w \<Longrightarrow> flush_loop w = Some (flush_ref (messageQueue w) w)"
proof (induction "messageQueue w" arbitrary: w)
  case Nil
  then show ?case by (simp add: flush_loop.simps)
next
  case (Cons m q w)
  show ?case
  proof (cases "send m (w\<lparr>messageQueue := q\<rparr>)")
    case (Inl p)
    with Cons.hyps(2) [symmetric] show ?thesis by (simp add: flush_loop.simps [of w])
  next
    case (Inr w')
    with Cons.prems have "messageQueue w' = q \<and> isReady w'"
      using send_ready_keeps_queue [of "w\<lparr>messageQueue := q\<rparr>" m w'] by simp
    with Cons.hyps(1) have "flush_loop w' = Some (flush_ref q w')" by metis
    with Inr Cons.hyps(2) [symmetric] show ?thesis by (simp add: flush_loop.simps [of w])
  qed
qed

theorem flush_loop_equiv_ref_witness:
  "isReady ready_demo \<and> flush_loop ready_demo = Some (flush_ref (messageQueue ready_demo) ready_demo)"
proof -
  have h: "isReady ready_demo" by (simp add: ready_demo_def)
  show ?thesis using h flush_loop_equiv_ref [OF h] by blast
qed

text \<open>
  C33: If flushMessageQueue's loop ran while the manager is not ready with a non-empty queue, it would never return: each send re-enqueues the message it shifted.
\<close>

theorem flush_loop_hangs:
  assumes "\<not> isReady w" and "messageQueue w \<noteq> []"
  shows "flush_loop w = None"
proof (cases "flush_loop w")
  case (Some r)
  have "\<not> isReady w \<longrightarrow> messageQueue w = []"
  proof (rule flush_loop.raw_induct [where P = "\<lambda>w r. \<not> isReady w \<longrightarrow> messageQueue w = []", OF _ Some])
    fix f w r
    assume IH: "\<And>w r. f w = Some r \<Longrightarrow> \<not> isReady w \<longrightarrow> messageQueue w = []"
      and eq: "(case messageQueue w of [] \<Rightarrow> Some (Inr w)
         | m # q \<Rightarrow> (case send m (w\<lparr>messageQueue := q\<rparr>) of Inl p \<Rightarrow> Some (Inl p) | Inr w' \<Rightarrow> f w')) = Some r"
    show "\<not> isReady w \<longrightarrow> messageQueue w = []"
    proof (cases "messageQueue w")
      case (Cons m q)
      show ?thesis
      proof
        assume nr: "\<not> isReady w"
        let ?w' = "(log (DQueued m) (w\<lparr>messageQueue := q\<rparr>))\<lparr>messageQueue := q @ [m]\<rparr>"
        from nr Cons eq have "f ?w' = Some r" by (simp add: send_queued)
        then have "\<not> isReady ?w' \<longrightarrow> messageQueue ?w' = []" by (rule IH)
        with nr show "messageQueue w = []" by (simp add: log_def)
      qed
    qed simp
  qed
  with assms show ?thesis by simp
qed simp

lemma flushMessageQueue_open:
  "isReady w \<Longrightarrow> ws w = Some s \<Longrightarrow> ready_state w s = OPEN \<Longrightarrow>
   flushMessageQueue w = Some (Inr ((log (DFlushing (length (messageQueue w))) w)
      \<lparr>wire := wire w @ map (\<lambda>m. (s, stringify m)) (messageQueue w), messageQueue := []\<rparr>))"
  unfolding flushMessageQueue_def
  by (subst flush_loop_open [where s = s]) (simp_all add: log_def)

lemma on_open_no_hook:
  assumes "onOpen w = None" and "ws w = Some s" and "ready_state w s = OPEN"
  shows "on_open w = Some (Inr (startHeartbeat
     ((log (DFlushing (length (messageQueue w))) ((log DOpened w)\<lparr>isReady := True, reconnectAttempts := 0\<rparr>))
        \<lparr>wire := wire w @ map (\<lambda>m. (s, stringify m)) (messageQueue w), messageQueue := []\<rparr>)))"
proof -
  let ?w1 = "(log DOpened w)\<lparr>isReady := True, reconnectAttempts := 0\<rparr>"
  have "isReady ?w1" "ws ?w1 = Some s" "ready_state ?w1 s = OPEN"
    using assms by (simp_all add: log_def)
  from flushMessageQueue_open [OF this] assms show ?thesis
    by (simp add: on_open_def log_def)
qed

lemma startHeartbeat_fields [simp]:
  "wire (startHeartbeat w) = wire w" "messageQueue (startHeartbeat w) = messageQueue w"
  "isReady (startHeartbeat w) = isReady w" "ws (startHeartbeat w) = ws w"
  "reconnectAttempts (startHeartbeat w) = reconnectAttempts w"
  "heartbeatInterval (startHeartbeat w) = Some (next_timer w)"
  "sockets (startHeartbeat w) = sockets w"
  by (simp_all add: startHeartbeat_def stopHeartbeat_def setInterval_def set_timer_def
      clear_timer_def split: option.splits)

text \<open>
  C14: On the open event of the current socket (no onOpen hook), the manager becomes ready, resets reconnectAttempts to 0, sends the whole queue in order, empties it and starts the heartbeat.
\<close>

theorem on_open_drains_queue:
  assumes "onOpen w = None" and "ws w = Some s" and "ready_state w s = OPEN"
  shows "\<exists>w'. on_open w = Some (Inr w') \<and> isReady w' \<and> reconnectAttempts w' = 0 \<and>
    wire w' = wire w @ map (\<lambda>m. (s, stringify m)) (messageQueue w) \<and> messageQueue w' = [] \<and>
    heartbeatInterval w' \<noteq> None"
  using on_open_no_hook [OF assms] by (simp add: log_def)

text \<open>
  C28: Messages the onOpen hook sends go to the socket before the queued backlog, so the drain does not happen before every message sent after the transition to open.
\<close>

theorem on_open_callback_first:
  assumes "onOpen w = Some [ASend a]" and "ws w = Some s" and "ready_state w s = OPEN"
  shows "\<exists>w'. on_open w = Some (Inr w') \<and>
    wire w' = wire w @ (s, stringify a) # map (\<lambda>m. (s, stringify m)) (messageQueue w)"
proof -
  let ?w1 = "(log DOpened w)\<lparr>isReady := True, reconnectAttempts := 0\<rparr>"
  let ?w2 = "?w1\<lparr>wire := wire w @ [(s, stringify a)]\<rparr>"
  have "run_api [ASend a] ?w1 = Inr ?w2"
    using assms by (simp add: send_def ws_send_def log_def split: if_splits)
  moreover have "isReady ?w2" "ws ?w2 = Some s" "ready_state ?w2 s = OPEN"
    using assms by (simp_all add: log_def)
  note fl = flushMessageQueue_open [OF this]
  ultimately show ?thesis using assms fl
    by (simp add: on_open_def log_def)
qed

subsection \<open>Closing and reconnecting\<close>

lemma scheduleReconnect_pending: "handle_set (reconnectTimeout w) \<Longrightarrow> scheduleReconnect w = w"
  by (simp add: scheduleReconnect_def)

text \<open>
  C18: With no reconnect pending, scheduleReconnect arms one timeout of backoff_delay(reconnectAttempts) ms from now, records its handle and increments reconnectAttempts.
\<close>

theorem scheduleReconnect_fresh:
  assumes "\<not> handle_set (reconnectTimeout w)"
  shows "reconnectTimeout (scheduleReconnect w) = Some (next_timer w) \<and>
    reconnectAttempts (scheduleReconnect w) = Suc (reconnectAttempts w) \<and>
    timers (scheduleReconnect w) = timers w @
      [(next_timer w, \<lparr>cb = ReconnectFire, due = now w + backoff_delay (reconnectAttempts w), period = None\<rparr>)]"
  using assms by (simp add: scheduleReconnect_def setTimeout_def set_timer_def log_def Let_def)

text \<open>
  C17: Every close event leaves the manager not ready, with the heartbeat stopped and a reconnect timer pending: the code has no way to close without reconnecting.
\<close>

theorem on_close_schedules_reconnect:
  "\<not> isReady (on_close w) \<and> heartbeatInterval (on_close w) = None \<and> reconnectTimeout (on_close w) \<noteq> None"
  by (auto simp: on_close_def scheduleReconnect_def stopHeartbeat_def setTimeout_def set_timer_def
      clear_timer_def log_def Let_def handle_set_iff split: option.splits)

text \<open>
  C3: While the manager is not ready, or ready with an OPEN socket and an empty queue, send succeeds and appends the message to the abstract outbound stream (frames sent, then the queue), exactly as the enqueue of a FIFO queue, and the condition is kept.
\<close>

theorem send_refines_fifo:
  "accepting w \<Longrightarrow> \<exists>w'. send m w = Inr w' \<and> outbound w' = outbound w @ [stringify m] \<and> accepting w'"
  by (auto simp: accepting_def send_def ws_send_def transmits_def outbound_def log_def
      split: option.splits)

text \<open>
  C29: When isReady is true but the current socket is not OPEN (a later connect() replaced it, or an error closed it), send neither queues nor transmits the message: it is lost (CONNECTING throws InvalidStateError, CLOSING/CLOSED drops silently).
\<close>

theorem send_stale_ready_loses:
  "isReady w \<Longrightarrow> \<not> transmits w \<Longrightarrow> outbound (state_of (send m w)) = outbound w"
  by (auto simp: send_def ws_send_def transmits_def outbound_def split: option.splits ready_state.splits)

lemma quiet_on_message: "quiet w (state_of (on_message d w))"
proof (cases "json_parse d")
  case (Some m)
  show ?thesis
  proof (cases "handler_for w (get_prop ''type'' m)")
    case None
    with Some show ?thesis by (simp add: on_message_def quiet_def timer_view_def log_def)
  next
    case (Some h)
    with \<open>json_parse d = Some m\<close> show ?thesis by (simp add: on_message_def quiet_run_api)
  qed
qed (simp add: on_message_def)

lemma quiet_heartbeat_tick: "quiet w (heartbeat_tick w)"
  by (auto simp: heartbeat_tick_def ws_send_def quiet_def timer_view_def log_def
      split: option.splits ready_state.splits)

lemma quiet_set_ready: "quiet w (set_ready s st w)"
  by (simp add: quiet_def timer_view_def set_ready_def)

lemma quiet_on_error: "quiet w (state_of (on_error w))"
  by (auto simp: on_error_def quiet_def timer_view_def log_def ws_close_def set_ready_def Let_def
      split: option.splits)

text \<open>
  C2: When the manager is ready and its current socket is OPEN, flushMessageQueue returns, hands every queued message to that socket in enqueue order with no loss or duplication, and leaves the queue empty; the outbound stream is unchanged.
\<close>

theorem flush_sends_queue_in_order:
  assumes "isReady w" and "ws w = Some s" and "ready_state w s = OPEN"
  shows "\<exists>w'. flushMessageQueue w = Some (Inr w') \<and> outbound w' = outbound w \<and>
    messageQueue w' = [] \<and> wire w' = wire w @ map (\<lambda>m. (s, stringify m)) (messageQueue w)"
  using flushMessageQueue_open [OF assms] by (simp add: outbound_def log_def)

text \<open>
  C19: A second scheduleReconnect while one is pending changes nothing, provided the runtime's timer handles are positive (a handle 0 would be falsy in JavaScript).
\<close>

theorem scheduleReconnect_idempotent:
  "0 < next_timer w \<Longrightarrow> scheduleReconnect (scheduleReconnect w) = scheduleReconnect w"
  by (simp add: scheduleReconnect_def setTimeout_def set_timer_def log_def Let_def)

text \<open>
  C31: connect() with a URL the WebSocket constructor accepts appends a new CONNECTING socket and makes it current, leaving every previous socket in the state it had (the old one is not closed): the number of live sockets grows by one.
\<close>

theorem connect_adds_live_socket:
  "ws_url_ok (url w) \<Longrightarrow>
   \<exists>w'. connect w = Inr w' \<and> sockets w' = sockets w @ [CONNECTING] \<and> ws w' = Some (length (sockets w)) \<and>
     live_count w' = Suc (live_count w)"
  by (simp add: connect_def ws_new_def live_count_def log_def)

theorem connect_adds_live_socket_witness:
  "ws_url_ok (url ready_demo) \<and>
   (\<exists>w'. connect ready_demo = Inr w' \<and> sockets w' = [OPEN, CONNECTING] \<and> ws w' = Some 1 \<and>
     live_count w' = 2)"
proof -
  have h: "ws_url_ok (url ready_demo)" by (simp add: ready_demo_def init_mgr_def)
  have s: "sockets ready_demo = [OPEN]" "live_count ready_demo = 1"
    by (simp_all add: ready_demo_def init_mgr_def init_runtime_def live_count_def)
  show ?thesis using h s connect_adds_live_socket [OF h] by auto
qed

lemma demo_facts:
  "isReady ready_demo" "ws ready_demo = Some 0" "ready_state ready_demo 0 = OPEN"
  "onOpen opening_demo = None" "ws opening_demo = Some 0" "ready_state opening_demo 0 = OPEN"
  "isReady stale_demo" "\<not> transmits stale_demo"
  by (simp_all add: ready_demo_def opening_demo_def stale_demo_def init_mgr_def sock_state_def
      transmits_def)

theorem flush_sends_queue_in_order_witness:
  "isReady ready_demo \<and> ws ready_demo = Some 0 \<and> ready_state ready_demo 0 = OPEN \<and>
   (\<exists>w'. flushMessageQueue ready_demo = Some (Inr w') \<and> outbound w' = outbound ready_demo \<and>
      messageQueue w' = [] \<and> wire w' = wire ready_demo @ map (\<lambda>m. (0, stringify m)) (messageQueue ready_demo))"
  using demo_facts(1-3) flush_sends_queue_in_order [OF demo_facts(1-3)] by blast

theorem send_refines_fifo_witness:
  "accepting (init_mgr ''wss://signal'') \<and>
   (\<exists>w'. send msg_join (init_mgr ''wss://signal'') = Inr w' \<and>
      outbound w' = outbound (init_mgr ''wss://signal'') @ [stringify msg_join] \<and> accepting w')"
proof -
  have h: "accepting (init_mgr ''wss://signal'')" by (simp add: accepting_def init_mgr_def)
  show ?thesis using h send_refines_fifo [OF h] by blast
qed

theorem on_open_drains_queue_witness:
  "onOpen opening_demo = None \<and> ws opening_demo = Some 0 \<and> ready_state opening_demo 0 = OPEN \<and>
   (\<exists>w'. on_open opening_demo = Some (Inr w') \<and> isReady w' \<and> reconnectAttempts w' = 0 \<and>
      wire w' = wire opening_demo @ map (\<lambda>m. (0, stringify m)) (messageQueue opening_demo) \<and>
      messageQueue w' = [] \<and> heartbeatInterval w' \<noteq> None)"
  using demo_facts(4-6) on_open_drains_queue [OF demo_facts(4-6)] by blast

theorem scheduleReconnect_fresh_witness:
  "\<not> handle_set (reconnectTimeout (init_mgr ''wss://signal'')) \<and>
   reconnectTimeout (scheduleReconnect (init_mgr ''wss://signal'')) = Some 1 \<and>
   reconnectAttempts (scheduleReconnect (init_mgr ''wss://signal'')) = 1 \<and>
   timers (scheduleReconnect (init_mgr ''wss://signal'')) =
     [(1, \<lparr>cb = ReconnectFire, due = 1000, period = None\<rparr>)]"
proof -
  have h: "\<not> handle_set (reconnectTimeout (init_mgr ''wss://signal''))" by (simp add: init_mgr_def)
  show ?thesis using h scheduleReconnect_fresh [OF h] by (simp add: init_mgr_def backoff_delay_def)
qed

theorem scheduleReconnect_idempotent_witness:
  "0 < next_timer (init_mgr ''wss://signal'') \<and>
   scheduleReconnect (scheduleReconnect (init_mgr ''wss://signal'')) =
     scheduleReconnect (init_mgr ''wss://signal'')"
proof -
  have h: "0 < next_timer (init_mgr ''wss://signal'')" by (simp add: init_mgr_def)
  show ?thesis using h scheduleReconnect_idempotent [OF h] by blast
qed

theorem on_open_callback_first_witness:
  "onOpen (opening_demo\<lparr>onOpen := Some [ASend msg_join]\<rparr>) = Some [ASend msg_join] \<and>
   ws (opening_demo\<lparr>onOpen := Some [ASend msg_join]\<rparr>) = Some 0 \<and>
   ready_state (opening_demo\<lparr>onOpen := Some [ASend msg_join]\<rparr>) 0 = OPEN \<and>
   (\<exists>w'. on_open (opening_demo\<lparr>onOpen := Some [ASend msg_join]\<rparr>) = Some (Inr w') \<and>
      wire w' = wire opening_demo @ (0, stringify msg_join) # map (\<lambda>m. (0, stringify m)) (messageQueue opening_demo))"
proof -
  have h: "onOpen (opening_demo\<lparr>onOpen := Some [ASend msg_join]\<rparr>) = Some [ASend msg_join]"
    "ws (opening_demo\<lparr>onOpen := Some [ASend msg_join]\<rparr>) = Some 0"
    "ready_state (opening_demo\<lparr>onOpen := Some [ASend msg_join]\<rparr>) 0 = OPEN"
    using demo_facts(5,6) by simp_all
  show ?thesis using h on_open_callback_first [OF h] by simp
qed

theorem send_stale_ready_loses_witness:
  "isReady stale_demo \<and> \<not> transmits stale_demo \<and>
   outbound (state_of (send msg_join stale_demo)) = outbound stale_demo"
  using demo_facts(7,8) send_stale_ready_loses [OF demo_facts(7,8)] by blast

theorem flush_loop_hangs_witness:
  "\<not> isReady (opening_demo) \<and> messageQueue opening_demo \<noteq> [] \<and> flush_loop opening_demo = None"
proof -
  have h: "\<not> isReady opening_demo" "messageQueue opening_demo \<noteq> []"
    by (simp_all add: opening_demo_def init_mgr_def)
  show ?thesis using h flush_loop_hangs [OF h] by blast
qed

text \<open>
  C16: A heartbeat tick sends exactly one ping, stamped with the current time, on the current socket when that socket is OPEN, and otherwise does nothing; it never throws, so the catch branch is dead.
\<close>

theorem heartbeat_tick_pings_current:
  "heartbeat_tick w =
     (case ws w of
        Some s \<Rightarrow>
          (if ready_state w s = OPEN then w\<lparr>wire := wire w @ [(s, stringify (ping (now w)))]\<rparr> else w)
      | None \<Rightarrow> w)"
  by (simp add: heartbeat_tick_def ws_send_def split: option.splits)

text \<open>
  C15: After onMessage(t, h), any frame text that JSON.parse reads as a value whose type property is the string t is dispatched synchronously to h with that value, and to nothing else (the last registration for a tag wins).
\<close>

theorem register_then_dispatch:
  "json_parse d = Some m \<Longrightarrow> get_prop ''type'' m = Some (JStr t) \<Longrightarrow>
   on_message d (onMessage t h w) = run_api (h m) (onMessage t h w)"
  by (auto simp: on_message_def handler_for_def onMessage_def get_prop_def)

lemma on_open_returns: "\<exists>r. on_open w = Some r"
proof -
  let ?w1 = "(log DOpened w)\<lparr>isReady := True, reconnectAttempts := 0\<rparr>"
  let ?r = "case onOpen ?w1 of None \<Rightarrow> Inr ?w1 | Some c \<Rightarrow> run_api c ?w1"
  have q: "quiet ?w1 (state_of ?r)" by (simp add: quiet_run_api split: option.splits)
  show ?thesis
  proof (cases ?r)
    case (Inl p)
    then show ?thesis by (simp add: on_open_def Let_def)
  next
    case (Inr w2)
    with q have "isReady w2" by (simp add: quiet_def)
    then have "isReady (log (DFlushing (length (messageQueue w2))) w2)" by (simp add: log_def)
    then obtain r3 where "flushMessageQueue w2 = Some r3"
      using flush_loop_terminates by (auto simp: flushMessageQueue_def)
    with Inr show ?thesis by (cases r3) (auto simp: on_open_def Let_def)
  qed
qed

theorem register_then_dispatch_witness:
  "json_parse (stringify msg_join) = Some msg_join \<and> get_prop ''type'' msg_join = Some (JStr ''join'') \<and>
   on_message (stringify msg_join) (onMessage ''join'' (\<lambda>m. [ASend m]) ready_demo) =
   run_api [ASend msg_join] (onMessage ''join'' (\<lambda>m. [ASend m]) ready_demo)"
proof -
  have h: "json_parse (stringify msg_join) = Some msg_join"
    by (simp add: json_parse_def lex_stringify run_tokens_of msg_join_def wf_obj_def key_before_def
        index_of_def json_digit_def del: tokens_of.simps)
  have t: "get_prop ''type'' msg_join = Some (JStr ''join'')" by (simp add: msg_join_def get_prop_def)
  show ?thesis using h t register_then_dispatch [OF h t, of "\<lambda>m. [ASend m]" ready_demo] by simp
qed

text \<open>
  C8: When the manager is ready on an OPEN socket, send hands the socket a text that JSON.parse reads back as exactly the message sent, for every well-formed JSON message (object keys distinct and in JavaScript enumeration order).
\<close>

theorem send_text_parses_back:
  assumes "wf_json m" and "isReady w" and "ws w = Some s" and "ready_state w s = OPEN"
  shows "\<exists>d. send m w = Inr (w\<lparr>wire := wire w @ [(s, d)]\<rparr>) \<and> json_parse d = Some m"
  using send_open [OF assms(2-4)] json_roundtrip [OF assms(1)] by blast

theorem send_text_parses_back_witness:
  "wf_json msg_join \<and> isReady ready_demo \<and> ws ready_demo = Some 0 \<and> ready_state ready_demo 0 = OPEN \<and>
   (\<exists>d. send msg_join ready_demo = Inr (ready_demo\<lparr>wire := wire ready_demo @ [(0, d)]\<rparr>) \<and>
      json_parse d = Some msg_join)"
proof -
  have h: "wf_json msg_join" by (simp add: msg_join_def wf_obj_def key_before_def index_of_def json_digit_def)
  show ?thesis using h demo_facts(1-3) send_text_parses_back [OF h demo_facts(1-3)] by blast
qed

text \<open>
  Only \<open>connect\<close> throws SyntaxError among the calls of a callback, and it logs
  before the constructor throws.
\<close>

lemma run_api_syntax_error:
  "run_api cs w = Inl (SyntaxError, w') \<Longrightarrow> length (console w) < length (console w')"
proof (induction cs arbitrary: w)
  case (Cons c cs)
  show ?case
  proof (cases c)
    case (AOnMessage t h)
    with Cons.prems Cons.IH [of "onMessage t h w"] show ?thesis by (simp add: onMessage_def)
  next
    case (ASetOnOpen c')
    with Cons.prems Cons.IH [of "w\<lparr>onOpen := c'\<rparr>"] show ?thesis by simp
  qed (use Cons in \<open>fastforce simp: then_exc_def send_def ws_send_def connect_def ws_new_def log_def
         split: sum.splits if_splits option.splits ready_state.splits\<close>)+
qed simp

lemma run_api_no_syntax_error: "run_api cs w \<noteq> Inl (SyntaxError, w)"
  using run_api_syntax_error [of cs w w] by auto

text \<open>
  C9: onmessage throws SyntaxError, leaving the manager unchanged, exactly when JSON.parse rejects the frame text; the text null throws TypeError on reading .type; a value without a string type property, such as an array or {"type":7}, is logged as an unknown type and dispatched to no handler.
\<close>

theorem on_message_error_paths:
  "(on_message d w = Inl (SyntaxError, w)) = (json_parse d = None) \<and>
   on_message ''null'' w = Inl (TypeError, w) \<and>
   on_message ''[1, 2]'' w = Inr (log (DUnknownType None) w) \<and>
   on_message ''{\"type\":7}'' w = Inr (log (DUnknownType (Some (JNum 7))) w)"
proof -
  have "(on_message d w = Inl (SyntaxError, w)) = (json_parse d = None)"
    by (auto simp: on_message_def run_api_no_syntax_error split: option.splits)
  moreover have "on_message ''null'' w = Inl (TypeError, w)"
    by (simp add: on_message_def json_parse_def json_ws_def punct_def json_digit_def start_val_def)
  moreover have "on_message ''[1, 2]'' w = Inr (log (DUnknownType None) w)"
    by (simp add: on_message_def json_parse_def json_ws_def punct_def json_digit_def lex_num_def
        lex_nat_def digits_val_def start_val_def get_prop_def handler_for_def)
  moreover have "on_message ''{\"type\":7}'' w = Inr (log (DUnknownType (Some (JNum 7))) w)"
    by (simp add: on_message_def json_parse_def json_ws_def punct_def json_digit_def lex_num_def
        lex_nat_def digits_val_def start_val_def obj_set_def index_of_def prepend_def get_prop_def
        handler_for_def)
  ultimately show ?thesis by blast
qed

end
