(* ===== verification/System.thy ===== *)
theory System
  imports Prelude Runtime Manager
begin

text \<open>
  The manager inside the browser's event loop.  An \<open>event\<close> is one task of the
  loop: a call of the presentation layer, an event of one of the sockets the
  manager created, a timer firing, or the clock advancing.  \<open>enabled\<close> is the
  browser's guard on each event (a socket opens only while CONNECTING, a timer
  fires only when due, the clock never passes a due timer); \<open>dispatch\<close> runs the
  handler the code attached.  Socket handlers are attached per socket but close over
  \<open>this\<close> only, so an event of an old socket runs the same code as one of the
  current socket.  An exception that escapes a task is reported on the console and
  the loop goes on with the state the task left; a task that never returns (the
  flush loop on a connection that is not ready) is no step at all.
\<close>

datatype event =
    EConnect
  | ESend message
  | EOnMessage tag handler
  | ESetOnOpen "api list option"
  | EOpen sock_id
  | EMessage sock_id string   \<comment> \<open>the text \<open>event.data\<close> of a message event\<close>
  | EClose sock_id
  | EError sock_id
  | EFire timer_id
  | EAdvance nat

text \<open>
  A timer that fires: a timeout leaves the table, an interval is due again one
  period later; then its callback runs.
\<close>

definition fire_timer :: "timer_id \<Rightarrow> mgr \<Rightarrow> mgr" where
  "fire_timer i w =
     (case map_of (timers w) i of
        None \<Rightarrow> w
      | Some t \<Rightarrow>
          run_timer_cb (cb t)
            (case period t of None \<Rightarrow> clear_timer i w | Some p \<Rightarrow> reschedule i (due t + p) w))"

text \<open>
  An error event is the browser failing the connection: the socket is CLOSED, the
  \<open>error\<close> handler runs, then the \<open>close\<close> handler, whatever the first one threw.
\<close>

fun dispatch :: "event \<Rightarrow> mgr \<Rightarrow> mgr option" where
  "dispatch EConnect w = Some (settle (connect w))"
| "dispatch (ESend m) w = Some (settle (send m w))"
| "dispatch (EOnMessage t h) w = Some (onMessage t h w)"
| "dispatch (ESetOnOpen c) w = Some (w\<lparr>onOpen := c\<rparr>)"
| "dispatch (EOpen s) w = map_option settle (on_open (set_ready s OPEN w))"
| "dispatch (EMessage s d) w = Some (settle (on_message d w))"
| "dispatch (EClose s) w = Some (on_close (set_ready s CLOSED w))"
| "dispatch (EError s) w = Some (on_close (settle (on_error (set_ready s CLOSED w))))"
| "dispatch (EFire i) w = Some (fire_timer i w)"
| "dispatch (EAdvance d) w = Some (w\<lparr>now := now w + d\<rparr>)"

fun enabled :: "event \<Rightarrow> mgr \<Rightarrow> bool" where
  "enabled (EOpen s) w = (ready_state w s = CONNECTING)"
| "enabled (EMessage s d) w = (ready_state w s = OPEN)"
| "enabled (EClose s) w = (ready_state w s = OPEN \<or> ready_state w s = CLOSING)"
| "enabled (EError s) w = (ready_state w s \<noteq> CLOSED)"
| "enabled (EFire i) w =
     (case map_of (timers w) i of None \<Rightarrow> False | Some t \<Rightarrow> due t = now w)"
| "enabled (EAdvance d) w = (0 < d \<and> list_all (\<lambda>(_, t). now w + d \<le> due t) (timers w))"
| "enabled _ w = True"

inductive step :: "mgr \<Rightarrow> event \<Rightarrow> mgr \<Rightarrow> bool" where
  "enabled e w \<Longrightarrow> dispatch e w = Some w' \<Longrightarrow> step w e w'"

inductive reachable :: "string \<Rightarrow> mgr \<Rightarrow> bool" for u where
  start: "reachable u (init_mgr u)"
| stepped: "reachable u w \<Longrightarrow> step w e w' \<Longrightarrow> reachable u w'"

text \<open>A run of a list of events: \<open>None\<close> if one is not enabled or never returns.\<close>

fun run :: "mgr \<Rightarrow> event list \<Rightarrow> mgr option" where
  "run w [] = Some w"
| "run w (e # es) =
     (if enabled e w then (case dispatch e w of None \<Rightarrow> None | Some w' \<Rightarrow> run w' es) else None)"

subsection \<open>The invariant\<close>

text \<open>
  \<open>timers_inv\<close>: the pending timers of each callback are exactly the one whose
  handle the manager holds, or none; handles are positive, distinct and below the
  next handle; no timer is overdue; the heartbeat repeats every 20000 ms and the
  reconnect timer is a timeout.  \<open>conn_inv\<close>: a heartbeat runs only while the
  manager is ready, and a ready manager has a socket.
\<close>

definition timers_inv :: "mgr \<Rightarrow> bool" where
  "timers_inv w \<longleftrightarrow>
     timer_ids HeartbeatTick (timers w) = opt_list (heartbeatInterval w) \<and>
     timer_ids ReconnectFire (timers w) = opt_list (reconnectTimeout w) \<and>
     distinct (map fst (timers w)) \<and> 0 < next_timer w \<and>
     list_all (\<lambda>(i, t). 0 < i \<and> i < next_timer w \<and> now w \<le> due t \<and>
        period t = (if cb t = HeartbeatTick then Some 20000 else None)) (timers w)"

definition conn_inv :: "mgr \<Rightarrow> bool" where
  "conn_inv w \<longleftrightarrow>
     (heartbeatInterval w \<noteq> None \<longrightarrow> isReady w) \<and> (isReady w \<longrightarrow> ws w \<noteq> None) \<and>
     (ws w = None \<longrightarrow> sockets w = [])"

definition inv :: "mgr \<Rightarrow> bool" where
  "inv w \<longleftrightarrow> timers_inv w \<and> conn_inv w"

text \<open>A run of the system: connect, open, one heartbeat, an unexpected close.\<close>

definition demo :: "mgr" where
  "demo = the (run (init_mgr ''wss://signal'') [EConnect, EOpen 0, EAdvance 20000, EFire 1, EClose 0])"

text \<open>Two calls of \<open>connect()\<close>, then the second socket opens.\<close>

definition two_sockets :: mgr where
  "two_sockets = the (run (init_mgr ''wss://signal'') [EConnect, EConnect, EOpen 1])"

text \<open>A run with the connection open and one heartbeat sent.\<close>

definition demo_open :: "mgr" where
  "demo_open = the (run (init_mgr ''wss://signal'') [EConnect, EOpen 0, EAdvance 20000, EFire 1])"

definition demo_due :: mgr where
  "demo_due = the (run (init_mgr ''wss://signal'') [EConnect, EOpen 0, EAdvance 20000])"

inductive_cases step_elim: "step w e w'"

lemma timers_inv_view: "timer_view w' = timer_view w \<Longrightarrow> timers_inv w' = timers_inv w"
  by (simp add: timers_inv_def timer_view_def)

lemma inv_quiet: "quiet w w' \<Longrightarrow> inv w \<Longrightarrow> inv w'"
  using timers_inv_view [of w' w] by (auto simp: inv_def quiet_def conn_inv_def timer_view_def)

lemma timer_ids_disjoint:
  "distinct (map fst ts) \<Longrightarrow> k1 \<noteq> k2 \<Longrightarrow> i \<in> set (timer_ids k1 ts) \<Longrightarrow> i \<notin> set (timer_ids k2 ts)"
  by (auto simp: timer_ids_def dest: eq_key_imp_eq_value)

lemma timer_ids_mem: "i \<in> set (timer_ids k ts) \<Longrightarrow> \<exists>t. (i, t) \<in> set ts \<and> cb t = k"
  by (auto simp: timer_ids_def)

lemma timers_inv_handle_pos:
  assumes "timers_inv w" and "i \<in> set (timer_ids k (timers w))"
  shows "0 < i"
  using assms timer_ids_mem [OF assms(2)] by (auto simp: timers_inv_def list_all_iff)

lemma stopHeartbeat_inv:
  assumes "timers_inv w"
  shows "timers_inv (stopHeartbeat w) \<and> heartbeatInterval (stopHeartbeat w) = None"
proof (cases "heartbeatInterval w")
  case None
  with assms show ?thesis by (simp add: stopHeartbeat_def timers_inv_def)
next
  case (Some h)
  with assms have hb: "timer_ids HeartbeatTick (timers w) = [h]" by (simp add: timers_inv_def)
  then have "0 < h" using timers_inv_handle_pos [OF assms, of h HeartbeatTick] by simp
  have "h \<notin> set (timer_ids ReconnectFire (timers w))"
    using timer_ids_disjoint [of "timers w" HeartbeatTick ReconnectFire h] assms hb
    by (simp add: timers_inv_def)
  then have "filter (\<lambda>j. j \<noteq> h) (opt_list (reconnectTimeout w)) = opt_list (reconnectTimeout w)"
    using assms by (cases "reconnectTimeout w") (auto simp: timers_inv_def)
  with assms Some hb \<open>0 < h\<close> show ?thesis
    by (auto simp: stopHeartbeat_def timers_inv_def clear_timer_def timer_ids_filter_key
        distinct_map_filter list_all_iff)
qed

lemma startHeartbeat_inv:
  assumes "timers_inv w"
  shows "timers_inv (startHeartbeat w)"
proof -
  let ?w0 = "stopHeartbeat w"
  from stopHeartbeat_inv [OF assms] have i0: "timers_inv ?w0" and h0: "heartbeatInterval ?w0 = None"
    by auto
  have fresh: "next_timer ?w0 \<notin> fst ` set (timers ?w0)"
    using i0 by (auto simp: timers_inv_def list_all_iff)
  show ?thesis
    using i0 h0 fresh
    by (auto simp: startHeartbeat_def setInterval_def set_timer_def timers_inv_def list_all_iff
        simp del: stopHeartbeat_def)
qed

lemma scheduleReconnect_inv:
  assumes "timers_inv w"
  shows "timers_inv (scheduleReconnect w)"
proof (cases "handle_set (reconnectTimeout w)")
  case True
  with assms show ?thesis by (simp add: scheduleReconnect_pending)
next
  case False
  have "reconnectTimeout w = None"
  proof (cases "reconnectTimeout w")
    case (Some h)
    with assms have "h \<in> set (timer_ids ReconnectFire (timers w))" by (simp add: timers_inv_def)
    with assms have "0 < h" by (rule timers_inv_handle_pos)
    with False Some show ?thesis by simp
  qed simp
  moreover have "next_timer w \<notin> fst ` set (timers w)"
    using assms by (auto simp: timers_inv_def list_all_iff)
  ultimately show ?thesis
    using assms False
    by (auto simp: scheduleReconnect_def setTimeout_def set_timer_def timers_inv_def list_all_iff
        log_def Let_def)
qed

lemma inv_log [simp]: "inv (log d w) = inv w"
  by (simp add: inv_def timers_inv_def conn_inv_def log_def)

lemma inv_settle [simp]: "inv (settle r) = inv (state_of r)"
  by (cases r) (auto simp: settle_def)

lemma on_close_inv:
  assumes "inv w"
  shows "inv (on_close w)"
proof -
  let ?w1 = "(log DClosed w)\<lparr>isReady := False\<rparr>"
  have "timers_inv ?w1" using assms timers_inv_view [of ?w1 w]
    by (simp add: inv_def timer_view_def log_def)
  then have "timers_inv (stopHeartbeat ?w1)" and hb: "heartbeatInterval (stopHeartbeat ?w1) = None"
    using stopHeartbeat_inv by auto
  then have "timers_inv (on_close w)"
    by (simp add: on_close_def scheduleReconnect_inv del: stopHeartbeat_def)
  moreover have "conn_inv (on_close w)"
    using assms hb
    by (auto simp: on_close_def conn_inv_def inv_def scheduleReconnect_def setTimeout_def
        set_timer_def log_def Let_def stopHeartbeat_def clear_timer_def split: option.splits)
  ultimately show ?thesis by (simp add: inv_def)
qed

lemma on_open_inv:
  assumes "inv w" and "ws w \<noteq> None" and "on_open w = Some r"
  shows "inv (state_of r)"
proof -
  let ?w1 = "(log DOpened w)\<lparr>isReady := True, reconnectAttempts := 0\<rparr>"
  let ?r = "case onOpen ?w1 of None \<Rightarrow> Inr ?w1 | Some c \<Rightarrow> run_api c ?w1"
  have i1: "inv ?w1" using assms(1,2) timers_inv_view [of ?w1 w]
    by (auto simp: inv_def conn_inv_def timer_view_def log_def)
  have q1: "quiet ?w1 (state_of ?r)" by (simp add: quiet_run_api split: option.splits)
  have i2: "inv (state_of ?r)" by (rule inv_quiet [OF q1 i1])
  have rd2: "isReady (state_of ?r)" using q1 by (simp add: quiet_def)
  show ?thesis
  proof (cases ?r)
    case (Inl p)
    with assms(3) i2 show ?thesis by (auto simp: on_open_def Let_def)
  next
    case (Inr w2)
    with i2 rd2 have i2': "inv w2" and rd2': "isReady w2" by auto
    show ?thesis
    proof (cases "flushMessageQueue w2")
      case None
      with assms(3) Inr show ?thesis by (simp add: on_open_def Let_def)
    next
      case (Some r3)
      have q3: "quiet w2 (state_of r3)"
        using Some flush_loop_quiet [of "log (DFlushing (length (messageQueue w2))) w2" r3]
        by (auto simp: flushMessageQueue_def quiet_def timer_view_def log_def intro: quiet_trans)
      have i3: "inv (state_of r3)" by (rule inv_quiet [OF q3 i2'])
      have rd3: "isReady (state_of r3)" using q3 rd2' by (simp add: quiet_def)
      show ?thesis
      proof (cases r3)
        case (Inl p)
        with assms(3) Inr Some i3 show ?thesis by (auto simp: on_open_def Let_def)
      next
        case (Inr w3)
        with i3 rd3 have "timers_inv (startHeartbeat w3)" "conn_inv (startHeartbeat w3)"
          by (auto simp: inv_def conn_inv_def startHeartbeat_inv)
        with assms(3) \<open>?r = Inr w2\<close> Some Inr show ?thesis
          by (auto simp: on_open_def Let_def inv_def)
      qed
    qed
  qed
qed

lemma reschedule_inv:
  assumes "inv w" and "(i, t) \<in> set (timers w)" and "cb t = HeartbeatTick"
  shows "inv (reschedule i (due t + 20000) w)"
proof -
  let ?P = "\<lambda>(j, u). 0 < j \<and> j < next_timer w \<and> now w \<le> due u \<and>
        period u = (if cb u = HeartbeatTick then Some (20000::nat) else None)"
  have all: "list_all ?P (timers w)" and dist: "distinct (map fst (timers w))"
    using assms(1) by (simp_all add: inv_def timers_inv_def)
  have "?P (resched_entry i (due t + 20000) x)" if x: "x \<in> set (timers w)" for x
  proof (cases x)
    case (Pair j u)
    show ?thesis
    proof (cases "j = i")
      case True
      with x Pair assms(2) dist have "u = t" by (metis eq_key_imp_eq_value)
      with all x Pair True show ?thesis by (auto simp: list_all_iff)
    next
      case False
      with all x Pair show ?thesis by (auto simp: list_all_iff)
    qed
  qed
  then have "list_all ?P (map (resched_entry i (due t + 20000)) (timers w))"
    by (simp add: list_all_iff)
  with assms(1) show ?thesis
    by (simp add: inv_def timers_inv_def conn_inv_def reschedule_def timer_ids_reschedule)
qed

lemma clear_reconnect_inv:
  assumes "inv w" and "reconnectTimeout w = Some i"
  shows "inv ((clear_timer i w)\<lparr>reconnectTimeout := None\<rparr>)"
proof -
  have ti: "timers_inv w" and ci: "conn_inv w" using assms(1) by (simp_all add: inv_def)
  have rf: "timer_ids ReconnectFire (timers w) = [i]" using ti assms(2) by (simp add: timers_inv_def)
  have "i \<notin> set (timer_ids HeartbeatTick (timers w))"
    using timer_ids_disjoint [of "timers w" ReconnectFire HeartbeatTick i] ti rf
    by (simp add: timers_inv_def)
  then have "filter (\<lambda>j. j \<noteq> i) (opt_list (heartbeatInterval w)) = opt_list (heartbeatInterval w)"
    using ti by (cases "heartbeatInterval w") (auto simp: timers_inv_def)
  moreover have "filter (\<lambda>j. j \<noteq> i) (opt_list (reconnectTimeout w)) = []"
    using assms(2) by simp
  ultimately show ?thesis using ti ci rf
    by (simp add: inv_def timers_inv_def conn_inv_def clear_timer_def timer_ids_filter_key
        distinct_map_filter list_all_iff)
qed

lemma fire_timer_inv:
  assumes "inv w"
  shows "inv (fire_timer i w)"
proof (cases "map_of (timers w) i")
  case None
  with assms show ?thesis by (simp add: fire_timer_def)
next
  case (Some t)
  have mem: "(i, t) \<in> set (timers w)" using Some by (rule map_of_SomeD)
  have per: "period t = (if cb t = HeartbeatTick then Some 20000 else None)"
    using assms mem by (auto simp: inv_def timers_inv_def list_all_iff)
  have ids: "i \<in> set (timer_ids (cb t) (timers w))" using Some by (rule map_of_timer_ids)
  show ?thesis
  proof (cases "cb t")
    case HeartbeatTick
    have "inv (reschedule i (due t + 20000) w)" using assms mem HeartbeatTick by (rule reschedule_inv)
    then have "inv (heartbeat_tick (reschedule i (due t + 20000) w))"
      by (rule inv_quiet [OF quiet_heartbeat_tick])
    with Some HeartbeatTick per show ?thesis by (simp add: fire_timer_def)
  next
    case ReconnectFire
    with ids assms have "reconnectTimeout w = Some i"
      by (cases "reconnectTimeout w") (auto simp: inv_def timers_inv_def)
    with assms have "inv ((clear_timer i w)\<lparr>reconnectTimeout := None\<rparr>)" by (rule clear_reconnect_inv)
    then have "inv (settle (connect ((clear_timer i w)\<lparr>reconnectTimeout := None\<rparr>)))"
      by (simp add: inv_quiet [OF quiet_connect])
    with Some ReconnectFire per show ?thesis by (simp add: fire_timer_def reconnect_fire_def)
  qed
qed

lemma inv_init: "inv (init_mgr u)"
  by (simp add: inv_def timers_inv_def conn_inv_def init_mgr_def timer_ids_def)

lemma enabled_open_ws:
  assumes "inv w" and "ready_state w s = CONNECTING"
  shows "ws w \<noteq> None"
proof
  assume "ws w = None"
  with assms(1) have "sockets w = []" by (simp add: inv_def conn_inv_def)
  with assms(2) show False by (simp add: sock_state_def)
qed

lemma step_inv:
  assumes "step w e w'" and "inv w"
  shows "inv w'"
  using assms(1)
proof (cases rule: step.cases)
  case 1
  note en = \<open>enabled e w\<close> and d = \<open>dispatch e w = Some w'\<close>
  show ?thesis
  proof (cases e)
    case EConnect
    with d assms(2) show ?thesis by (auto intro: inv_quiet [OF quiet_connect])
  next
    case (ESend m)
    with d assms(2) show ?thesis by (auto intro: inv_quiet [OF quiet_send])
  next
    case (EOnMessage t h)
    have "quiet w (onMessage t h w)" by (simp add: quiet_def timer_view_def onMessage_def)
    with d assms(2) EOnMessage show ?thesis by (auto intro: inv_quiet)
  next
    case (ESetOnOpen c)
    have "quiet w (w\<lparr>onOpen := c\<rparr>)" by (simp add: quiet_def timer_view_def)
    with d assms(2) ESetOnOpen show ?thesis by (auto intro: inv_quiet)
  next
    case (EOpen s)
    let ?w0 = "set_ready s OPEN w"
    have i0: "inv ?w0" by (rule inv_quiet [OF quiet_set_ready assms(2)])
    have "ws ?w0 \<noteq> None" using enabled_open_ws [OF assms(2)] en EOpen by (simp add: set_ready_def)
    with i0 d EOpen show ?thesis by (auto dest: on_open_inv)
  next
    case (EMessage s f)
    with d assms(2) show ?thesis by (auto intro: inv_quiet [OF quiet_on_message])
  next
    case (EClose s)
    with d assms(2) show ?thesis by (auto intro: on_close_inv inv_quiet [OF quiet_set_ready])
  next
    case (EError s)
    have "inv (set_ready s CLOSED w)" by (rule inv_quiet [OF quiet_set_ready assms(2)])
    then have "inv (settle (on_error (set_ready s CLOSED w)))"
      by (auto intro: inv_quiet [OF quiet_on_error])
    with d EError show ?thesis by (auto intro: on_close_inv)
  next
    case (EFire i)
    with d assms(2) show ?thesis by (auto intro: fire_timer_inv)
  next
    case (EAdvance n)
    with d have w': "w' = w\<lparr>now := now w + n\<rparr>" by simp
    from en EAdvance have "\<forall>(i, t) \<in> set (timers w). now w + n \<le> due t"
      by (simp add: list_all_iff)
    with assms(2) have "list_all (\<lambda>(i, t). 0 < i \<and> i < next_timer w \<and> now w + n \<le> due t \<and>
        period t = (if cb t = HeartbeatTick then Some 20000 else None)) (timers w)"
      by (fastforce simp: inv_def timers_inv_def list_all_iff)
    with assms(2) w' show ?thesis by (simp add: inv_def timers_inv_def conn_inv_def)
  qed
qed

lemma reachable_inv: "reachable u w \<Longrightarrow> inv w"
proof (induction rule: reachable.induct)
  case start
  show ?case by (rule inv_init)
next
  case (stepped w e w')
  then show ?case by (blast intro: step_inv)
qed

lemma run_reachable: "reachable u w \<Longrightarrow> run w es = Some w' \<Longrightarrow> reachable u w'"
proof (induction es arbitrary: w)
  case Nil
  then show ?case by simp
next
  case (Cons e es)
  then obtain w1 where "enabled e w" "dispatch e w = Some w1" "run w1 es = Some w'"
    by (auto split: if_splits option.splits)
  with Cons show ?case by (blast intro: reachable.stepped step.intros)
qed

subsection \<open>The URL\<close>

text \<open>
  \<open>this.url\<close> is set by the constructor and never assigned again, so a reachable
  state keeps the URL it started with; when the \<open>WebSocket\<close> constructor rejects
  it, every \<open>connect()\<close> throws and the client never gets a socket.
\<close>

lemma url_settle [simp]: "url (settle x) = url (state_of x)"
  by (cases x) (auto simp: settle_def log_def)

lemma quiet_url: "quiet w w' \<Longrightarrow> url w' = url w"
  by (simp add: quiet_def)

lemma on_open_url:
  assumes "on_open w = Some r"
  shows "url (state_of r) = url w"
proof -
  let ?w1 = "(log DOpened w)\<lparr>isReady := True, reconnectAttempts := 0\<rparr>"
  let ?r0 = "case onOpen ?w1 of None \<Rightarrow> Inr ?w1 | Some c \<Rightarrow> run_api c ?w1"
  have o: "then_opt (Some ?r0)
       (\<lambda>w2. then_opt (flushMessageQueue w2) (\<lambda>w3. Some (Inr (startHeartbeat w3)))) = Some r"
    using assms by (simp add: on_open_def Let_def)
  have "quiet ?w1 (state_of ?r0)" by (auto simp: quiet_run_api split: option.splits)
  then have u0: "url (state_of ?r0) = url w" by (simp add: quiet_def log_def)
  show ?thesis
  proof (cases ?r0)
    case (Inl p)
    with o u0 show ?thesis by auto
  next
    case (Inr w2)
    with o obtain r1 where f: "flush_loop (log (DFlushing (length (messageQueue w2))) w2) = Some r1"
      by (cases "flushMessageQueue w2") (auto simp: flushMessageQueue_def)
    have "url (state_of r1) = url w2" using quiet_url [OF flush_loop_quiet [OF f]] by (simp add: log_def)
    with Inr o f u0 show ?thesis
      by (cases r1) (auto simp: flushMessageQueue_def startHeartbeat_def stopHeartbeat_def setInterval_def
          set_timer_def clear_timer_def Let_def split: option.splits)
  qed
qed

lemma run_timer_cb_url: "url (run_timer_cb k w) = url w"
  by (cases k) (simp_all add: quiet_url [OF quiet_heartbeat_tick] reconnect_fire_def)

lemma dispatch_url: "dispatch e w = Some w' \<Longrightarrow> url w' = url w"
proof (cases e)
  case (EOpen s)
  then show "dispatch e w = Some w' \<Longrightarrow> ?thesis" by (auto simp: set_ready_def dest: on_open_url)
next
  case (EMessage s d)
  then show "dispatch e w = Some w' \<Longrightarrow> ?thesis" using quiet_url [OF quiet_on_message] by auto
next
  case (ESend m)
  then show "dispatch e w = Some w' \<Longrightarrow> ?thesis" using quiet_url [OF quiet_send] by auto
next
  case (EError s)
  then show "dispatch e w = Some w' \<Longrightarrow> ?thesis"
    using quiet_url [OF quiet_on_error, of "set_ready s CLOSED w"]
    by (auto simp: on_close_def stopHeartbeat_def scheduleReconnect_def setTimeout_def set_timer_def
        clear_timer_def log_def set_ready_def Let_def split: option.splits prod.splits)
next
  case (EFire i)
  then show "dispatch e w = Some w' \<Longrightarrow> ?thesis"
    by (auto simp: fire_timer_def run_timer_cb_url clear_timer_def reschedule_def split: option.splits)
qed (auto simp: onMessage_def on_close_def stopHeartbeat_def scheduleReconnect_def setTimeout_def
       set_timer_def clear_timer_def log_def set_ready_def Let_def split: option.splits prod.splits)

lemma reachable_url: "reachable u w \<Longrightarrow> url w = u"
proof (induction rule: reachable.induct)
  case start
  show ?case by (simp add: init_mgr_def)
next
  case (stepped w e w')
  then show ?case by (auto elim!: step.cases dest: dispatch_url)
qed

lemma bad_url_inv:
  assumes "reachable u w" and "\<not> ws_url_ok u"
  shows "sockets w = [] \<and> ws w = None \<and> \<not> isReady w \<and> wire w = [] \<and> timers w = [] \<and>
    heartbeatInterval w = None \<and> reconnectTimeout w = None"
  using assms(1)
proof (induction rule: reachable.induct)
  case start
  show ?case by (simp add: init_mgr_def init_runtime_def)
next
  case (stepped w e w')
  have bad: "\<not> ws_url_ok (url w)" using reachable_url [OF stepped.hyps(1)] assms(2) by simp
  from stepped.hyps(2) have en: "enabled e w" and d: "dispatch e w = Some w'" by (auto elim: step.cases)
  show ?case
  proof (cases e)
    case EConnect
    with d bad stepped.IH show ?thesis by (auto simp: connect_bad settle_def log_def)
  next
    case (ESend m)
    with d stepped.IH show ?thesis by (auto simp: send_queued settle_def log_def)
  next
    case (EFire i)
    with en stepped.IH show ?thesis by simp
  qed (use d en stepped.IH in \<open>auto simp: onMessage_def sock_state_def\<close>)
qed

lemma reachable_socket_url: "reachable u w \<Longrightarrow> sockets w \<noteq> [] \<Longrightarrow> ws_url_ok (url w)"
  using bad_url_inv reachable_url by blast

text \<open>
  C10: With a URL the WebSocket constructor rejects (a scheme other than ws, wss, http or https, such as localhost:8080, or a fragment), the client never gets a socket: in every reachable state there is no socket, no timer and nothing on the wire, and connect() throws SyntaxError before assigning this.ws or scheduling a reconnect.
\<close>

theorem bad_url_never_connects:
  "reachable u w \<Longrightarrow> \<not> ws_url_ok u \<Longrightarrow>
   sockets w = [] \<and> ws w = None \<and> wire w = [] \<and> timers w = [] \<and>
   connect w = Inl (SyntaxError, log (DConnecting u) w)"
  using bad_url_inv [of u w] reachable_url [of u w] connect_bad [of w] by simp

text \<open>
  C1: In every reachable state of the client there is at most one pending heartbeat interval and at most one pending reconnect timeout, and each is exactly the timer whose handle the manager holds in heartbeatInterval or reconnectTimeout.
\<close>

theorem at_most_one_timer_each:
  assumes "reachable u w"
  shows "length (timer_ids HeartbeatTick (timers w)) \<le> 1 \<and>
    length (timer_ids ReconnectFire (timers w)) \<le> 1 \<and>
    timer_ids HeartbeatTick (timers w) = opt_list (heartbeatInterval w) \<and>
    timer_ids ReconnectFire (timers w) = opt_list (reconnectTimeout w)"
  using reachable_inv [OF assms] by (simp add: inv_def timers_inv_def)

lemma demo_reachable: "reachable ''wss://signal'' demo"
proof -
  have "run (init_mgr ''wss://signal'') [EConnect, EOpen 0, EAdvance 20000, EFire 1, EClose 0] = Some demo"
    by (simp add: demo_def init_mgr_def connect_def ws_new_def log_def on_open_def Let_def
        flushMessageQueue_def flush_loop.simps startHeartbeat_def stopHeartbeat_def setInterval_def
        set_timer_def set_ready_def settle_def fire_timer_def reschedule_def heartbeat_tick_def
        ws_send_def on_close_def scheduleReconnect_def setTimeout_def clear_timer_def backoff_delay_def
        sock_state_def)
  then show ?thesis by (rule run_reachable [OF reachable.start])
qed

lemmas eval_defs = init_mgr_def connect_def ws_new_def log_def on_open_def Let_def
  flushMessageQueue_def flush_loop.simps startHeartbeat_def stopHeartbeat_def setInterval_def
  set_timer_def set_ready_def settle_def fire_timer_def reschedule_def heartbeat_tick_def
  ws_send_def on_close_def scheduleReconnect_def setTimeout_def clear_timer_def backoff_delay_def
  sock_state_def send_def on_error_def ws_close_def reconnect_fire_def on_message_def ping_def

text \<open>
  C20: In every reachable state a running heartbeat implies the manager is ready and has a socket, and every heartbeat timer repeats every 20000 ms.
\<close>

theorem heartbeat_only_while_ready:
  assumes "reachable u w"
  shows "(heartbeatInterval w \<noteq> None \<longrightarrow> isReady w \<and> ws w \<noteq> None) \<and>
    (\<forall>(i, t) \<in> set (timers w). cb t = HeartbeatTick \<longrightarrow> period t = Some 20000)"
  using reachable_inv [OF assms] by (auto simp: inv_def timers_inv_def conn_inv_def list_all_iff)

lemma on_close_sockets [simp]: "sockets (on_close w) = sockets w"
  by (simp add: on_close_def scheduleReconnect_def stopHeartbeat_def setTimeout_def set_timer_def
      clear_timer_def log_def Let_def split: option.splits prod.splits)

text \<open>
  C32: An error event of an old socket runs the shared handlers, which close the current, healthy socket, mark the manager not ready, stop the heartbeat and schedule a reconnect.
\<close>

theorem stale_error_closes_current:
  assumes "ws w = Some s1" and "s0 \<noteq> s1" and "ready_state w s1 = OPEN"
    and "step w (EError s0) w'"
  shows "ready_state w' s1 = CLOSING \<and> \<not> isReady w' \<and> heartbeatInterval w' = None \<and>
    reconnectTimeout w' \<noteq> None"
proof -
  from assms(4) have d: "w' = on_close (settle (on_error (set_ready s0 CLOSED w)))"
    by (auto elim: step_elim)
  have "settle (on_error (set_ready s0 CLOSED w)) =
        set_ready s1 CLOSING (log DSocketError (set_ready s0 CLOSED w))"
    using assms(1-3) by (simp add: on_error_def ws_close_def settle_def set_ready_def log_def)
  moreover have "s1 < length (sockets w)" using assms(3) by (simp add: sock_state_live)
  then have "ready_state (set_ready s1 CLOSING (log DSocketError (set_ready s0 CLOSED w))) s1 = CLOSING"
    by (simp add: set_ready_def log_def)
  ultimately show ?thesis using d
    by (auto simp: on_close_def scheduleReconnect_def stopHeartbeat_def setTimeout_def set_timer_def
        clear_timer_def log_def Let_def handle_set_iff split: option.splits)
qed

theorem stale_error_witness:
  "ws two_sockets = Some 1 \<and> (0::nat) \<noteq> 1 \<and> ready_state two_sockets 1 = OPEN \<and>
   step two_sockets (EError 0) (the (dispatch (EError 0) two_sockets)) \<and>
   ready_state (the (dispatch (EError 0) two_sockets)) 1 = CLOSING \<and>
   \<not> isReady (the (dispatch (EError 0) two_sockets)) \<and>
   heartbeatInterval (the (dispatch (EError 0) two_sockets)) = None \<and>
   reconnectTimeout (the (dispatch (EError 0) two_sockets)) \<noteq> None"
proof -
  have h: "ws two_sockets = Some 1" "ready_state two_sockets 1 = OPEN"
    "ready_state two_sockets 0 = CONNECTING"
    by (simp_all add: two_sockets_def eval_defs)
  have st: "step two_sockets (EError 0) (the (dispatch (EError 0) two_sockets))"
    by (rule step.intros) (simp_all add: h)
  show ?thesis using stale_error_closes_current [OF h(1) _ h(2) st] h st by simp
qed

lemma demo_open_reachable: "reachable ''wss://signal'' demo_open"
proof -
  have "run (init_mgr ''wss://signal'') [EConnect, EOpen 0, EAdvance 20000, EFire 1] = Some demo_open"
    by (simp add: demo_open_def eval_defs)
  then show ?thesis by (rule run_reachable [OF reachable.start])
qed

theorem at_most_one_timer_each_witness:
  "reachable ''wss://signal'' demo \<and>
   length (timer_ids HeartbeatTick (timers demo)) \<le> 1 \<and>
   length (timer_ids ReconnectFire (timers demo)) \<le> 1 \<and>
   timer_ids HeartbeatTick (timers demo) = opt_list (heartbeatInterval demo) \<and>
   timer_ids ReconnectFire (timers demo) = opt_list (reconnectTimeout demo)"
  using demo_reachable at_most_one_timer_each [OF demo_reachable] by blast

theorem heartbeat_only_while_ready_witness:
  "reachable ''wss://signal'' demo_open \<and> heartbeatInterval demo_open \<noteq> None \<and>
   isReady demo_open \<and> ws demo_open \<noteq> None \<and>
   (1, \<lparr>cb = HeartbeatTick, due = 40000, period = Some 20000\<rparr>) \<in> set (timers demo_open)"
proof -
  have hb: "heartbeatInterval demo_open \<noteq> None"
    and mem: "(1, \<lparr>cb = HeartbeatTick, due = 40000, period = Some 20000\<rparr>) \<in> set (timers demo_open)"
    by (simp_all add: demo_open_def eval_defs)
  have "isReady demo_open \<and> ws demo_open \<noteq> None"
    using heartbeat_only_while_ready [OF demo_open_reachable] hb by blast
  with hb mem demo_open_reachable show ?thesis by blast
qed

lemma run_append: "run w (xs @ ys) = (case run w xs of None \<Rightarrow> None | Some w' \<Rightarrow> run w' ys)"
  by (induction xs arbitrary: w) (auto split: option.splits)

lemma run_sends_queued:
  "\<not> isReady w \<Longrightarrow> run w (map ESend ms) =
     Some (w\<lparr>console := console w @ map DQueued ms, messageQueue := messageQueue w @ ms\<rparr>)"
proof (induction ms arbitrary: w)
  case Nil
  then show ?case by simp
next
  case (Cons m ms)
  let ?w1 = "(log (DQueued m) w)\<lparr>messageQueue := messageQueue w @ [m]\<rparr>"
  have "dispatch (ESend m) w = Some ?w1" using Cons.prems by (simp add: send_queued settle_def)
  moreover have "\<not> isReady ?w1" using Cons.prems by (simp add: log_def)
  ultimately show ?case using Cons.IH [of ?w1] by (simp add: log_def)
qed

lemma only_reconnect_timer:
  assumes "timers_inv w" and "heartbeatInterval w = None" and "reconnectTimeout w = Some i"
  shows "\<exists>t. timers w = [(i, t)] \<and> cb t = ReconnectFire \<and> period t = None \<and> now w \<le> due t"
proof -
  from assms have hb: "timer_ids HeartbeatTick (timers w) = []"
    and rf: "timer_ids ReconnectFire (timers w) = [i]" by (simp_all add: timers_inv_def)
  with timer_ids_partition [of "timers w"] have "length (timers w) = 1" by simp
  then obtain j t where ts: "timers w = [(j, t)]"
    by (cases "timers w") (auto simp: length_Suc_conv)
  with rf have "j = i" "cb t = ReconnectFire" by (auto split: if_splits)
  with ts assms(1) show ?thesis by (auto simp: timers_inv_def)
qed

text \<open>
  C23: From every reachable state with no heartbeat and a reconnect pending, and a URL the WebSocket constructor accepts, advancing the clock to the timer's due time and firing it creates a new CONNECTING socket as the current one and clears the pending reconnect.
\<close>

theorem reconnect_eventually_connects:
  assumes "reachable u w" and "heartbeatInterval w = None" and "reconnectTimeout w = Some i"
    and "ws_url_ok (url w)"
  shows "\<exists>t w'. map_of (timers w) i = Some t \<and>
    run w ((if now w < due t then [EAdvance (due t - now w)] else []) @ [EFire i]) = Some w' \<and>
    ws w' = Some (length (sockets w)) \<and> ready_state w' (length (sockets w)) = CONNECTING \<and>
    reconnectTimeout w' = None"
proof -
  have "timers_inv w" using reachable_inv [OF assms(1)] by (simp add: inv_def)
  from only_reconnect_timer [OF this assms(2,3)] obtain t where
    ts: "timers w = [(i, t)]" and t: "cb t = ReconnectFire" "period t = None" "now w \<le> due t"
    by blast
  let ?w1 = "w\<lparr>now := due t\<rparr>"
  have adv: "run w ((if now w < due t then [EAdvance (due t - now w)] else []) @ [EFire i]) =
             run ?w1 [EFire i]"
  proof (cases "now w < due t")
    case True
    with ts show ?thesis by (simp add: run_append)
  next
    case False
    with t(3) have "?w1 = w" by simp
    with False show ?thesis by simp
  qed
  have "run ?w1 [EFire i] = Some (settle (connect ((clear_timer i ?w1)\<lparr>reconnectTimeout := None\<rparr>)))"
    using ts t by (simp add: fire_timer_def reconnect_fire_def)
  with adv ts assms(4) show ?thesis
    by (simp add: connect_ok settle_def log_def clear_timer_def)
qed

theorem reconnect_eventually_connects_witness:
  "reachable ''wss://signal'' demo \<and> heartbeatInterval demo = None \<and> reconnectTimeout demo = Some 2 \<and>
   ws_url_ok (url demo) \<and>
   (\<exists>t w'. map_of (timers demo) 2 = Some t \<and>
      run demo ((if now demo < due t then [EAdvance (due t - now demo)] else []) @ [EFire 2]) = Some w' \<and>
      ws w' = Some (length (sockets demo)) \<and> ready_state w' (length (sockets demo)) = CONNECTING \<and>
      reconnectTimeout w' = None)"
proof -
  have h: "heartbeatInterval demo = None" "reconnectTimeout demo = Some 2" "ws_url_ok (url demo)"
    by (simp_all add: demo_def eval_defs)
  show ?thesis using demo_reachable h reconnect_eventually_connects [OF demo_reachable h] by blast
qed

text \<open>
  C11: Every task of the event loop returns: the handler of every event, the open handler with its flush loop included, terminates (the loop's non-termination when not ready is unreachable because onopen sets isReady first).
\<close>

theorem dispatch_returns: "\<exists>w'. dispatch e w = Some w'"
proof (cases e)
  case (EOpen s)
  obtain r where "on_open (set_ready s OPEN w) = Some r" using on_open_returns by blast
  with EOpen show ?thesis by simp
qed simp_all

lemma heartbeat_period_step:
  assumes "timers w = [(i, \<lparr>cb = HeartbeatTick, due = now w + 20000, period = Some 20000\<rparr>)]"
    and "ws w = Some s" and "ready_state w s = OPEN"
  shows "run w [EAdvance 20000, EFire i] =
    Some (w\<lparr>now := now w + 20000,
            timers := [(i, \<lparr>cb = HeartbeatTick, due = now w + 40000, period = Some 20000\<rparr>)],
            wire := wire w @ [(s, stringify (ping (now w + 20000)))]\<rparr>)"
  using assms by (simp add: fire_timer_def reschedule_def heartbeat_tick_def ws_send_def)

lemma heartbeat_periods:
  assumes "timers w = [(i, \<lparr>cb = HeartbeatTick, due = now w + 20000, period = Some 20000\<rparr>)]"
    and "ws w = Some s" and "ready_state w s = OPEN"
  shows "\<exists>w'. run w (concat (replicate k [EAdvance 20000, EFire i])) = Some w' \<and>
     wire w' = wire w @ map (\<lambda>j. (s, stringify (ping (now w + 20000 * Suc j)))) [0..<k] \<and>
     now w' = now w + 20000 * k \<and> ws w' = Some s \<and> ready_state w' s = OPEN"
  using assms
proof (induction k arbitrary: w)
  case 0
  then show ?case by simp
next
  case (Suc k)
  let ?w1 = "w\<lparr>now := now w + 20000,
            timers := [(i, \<lparr>cb = HeartbeatTick, due = now w + 40000, period = Some 20000\<rparr>)],
            wire := wire w @ [(s, stringify (ping (now w + 20000)))]\<rparr>"
  have r1: "run w [EAdvance 20000, EFire i] = Some ?w1"
    using heartbeat_period_step [OF Suc.prems] .
  obtain w' where w': "run ?w1 (concat (replicate k [EAdvance 20000, EFire i])) = Some w'"
      "wire w' = wire ?w1 @ map (\<lambda>j. (s, stringify (ping (now ?w1 + 20000 * Suc j)))) [0..<k]"
      "now w' = now ?w1 + 20000 * k" "ws w' = Some s" "ready_state w' s = OPEN"
    using Suc.IH [of ?w1] Suc.prems by auto
  have "run w (concat (replicate (Suc k) [EAdvance 20000, EFire i])) = Some w'"
    using r1 w'(1) by (simp only: replicate_Suc concat.simps run_append) simp
  moreover have "map (\<lambda>j. (s, stringify (ping (now w + 20000 * Suc j)))) [0..<Suc k] =
        (s, stringify (ping (now w + 20000))) # map (\<lambda>j. (s, stringify (ping (now ?w1 + 20000 * Suc j)))) [0..<k]"
    by (simp add: upt_conv_Cons map_Suc_upt [symmetric] algebra_simps del: upt_Suc)
  ultimately show ?case using w'(2-5) by simp
qed

text \<open>
  C21: From a reachable state whose current socket is connecting, with no onOpen hook and no pending timer, the open event starts the heartbeat, which then sends exactly one ping per 20000 ms period on that socket after the drained backlog, each stamped with the time it fires, for any number of periods in which nothing else happens.
\<close>

theorem heartbeat_pings_every_period:
  assumes "reachable u w" and "ws w = Some s" and "ready_state w s = CONNECTING"
    and "onOpen w = None" and "timers w = []"
  shows "\<exists>w'. run w (EOpen s # concat (replicate k [EAdvance 20000, EFire (next_timer w)])) = Some w' \<and>
     wire w' = wire w @ map (\<lambda>m. (s, stringify m)) (messageQueue w) @
       map (\<lambda>j. (s, stringify (ping (now w + 20000 * Suc j)))) [0..<k] \<and>
     now w' = now w + 20000 * k"
proof -
  have hb: "heartbeatInterval w = None"
    using reachable_inv [OF assms(1)] assms(5)
    by (cases "heartbeatInterval w") (auto simp: inv_def timers_inv_def timer_ids_def)
  let ?w0 = "set_ready s OPEN w"
  have "s < length (sockets w)" using assms(3) sock_state_live [of "sockets w" s] by simp
  then have o: "onOpen ?w0 = None" "ws ?w0 = Some s" "ready_state ?w0 s = OPEN"
    using assms(2,4) by (simp_all add: set_ready_def)
  let ?w1 = "startHeartbeat ((log (DFlushing (length (messageQueue ?w0)))
      ((log DOpened ?w0)\<lparr>isReady := True, reconnectAttempts := 0\<rparr>))
      \<lparr>wire := wire ?w0 @ map (\<lambda>m. (s, stringify m)) (messageQueue ?w0), messageQueue := []\<rparr>)"
  have r1: "run w [EOpen s] = Some ?w1"
    using on_open_no_hook [OF o] assms(3) by (simp add: settle_def)
  have t1: "timers ?w1 = [(next_timer w, \<lparr>cb = HeartbeatTick, due = now ?w1 + 20000, period = Some 20000\<rparr>)]"
    and f1: "ws ?w1 = Some s" "ready_state ?w1 s = OPEN" "now ?w1 = now w"
    "wire ?w1 = wire w @ map (\<lambda>m. (s, stringify m)) (messageQueue w)"
    using assms(5) hb o by (simp_all add: startHeartbeat_def stopHeartbeat_def setInterval_def set_timer_def
        set_ready_def log_def)
  obtain w' where w': "run ?w1 (concat (replicate k [EAdvance 20000, EFire (next_timer w)])) = Some w'"
    "wire w' = wire ?w1 @ map (\<lambda>j. (s, stringify (ping (now ?w1 + 20000 * Suc j)))) [0..<k]"
    "now w' = now ?w1 + 20000 * k"
    using heartbeat_periods [OF t1 f1(1,2), of k] by blast
  have "run w (EOpen s # concat (replicate k [EAdvance 20000, EFire (next_timer w)])) = Some w'"
    using r1 w'(1) run_append [of w "[EOpen s]"] by simp
  with w'(2,3) f1(3,4) show ?thesis by auto
qed

text \<open>
  C30: Finding: a second connect() before the first socket opens makes the first socket's open event drain the queue into the second, still CONNECTING, socket: send throws InvalidStateError and the queued message is lost, even after both sockets open.
\<close>

theorem double_connect_loses_queued:
  "ws_url_ok u \<Longrightarrow>
   \<exists>w. run (init_mgr u) [EConnect, EConnect, ESend a, EOpen 0, EOpen 1] = Some w \<and>
     wire w = [] \<and> messageQueue w = [] \<and> isReady w \<and>
     DUncaught InvalidStateError \<in> set (console w)"
  by (simp add: eval_defs)

theorem double_connect_loses_queued_witness:
  "ws_url_ok ''wss://signal'' \<and>
   (\<exists>w. run (init_mgr ''wss://signal'') [EConnect, EConnect, ESend msg_join, EOpen 0, EOpen 1] = Some w \<and>
     wire w = [] \<and> messageQueue w = [] \<and> isReady w \<and>
     DUncaught InvalidStateError \<in> set (console w))"
  using double_connect_loses_queued [OF signal_url_ok, of msg_join] by simp

text \<open>
  C24: If a reconnect attempt fails (the new socket errors before opening), the close path schedules the next attempt with the next backoff delay: the reconnect loop never stops, and its delays follow backoff_delay of the attempt count.
\<close>

theorem failed_attempt_reschedules:
  assumes "timers w = [(r, \<lparr>cb = ReconnectFire, due = now w + d, period = None\<rparr>)]"
    and "reconnectTimeout w = Some r" and "heartbeatInterval w = None" and "0 < d"
    and "ws_url_ok (url w)"
  shows "\<exists>w'. run w [EAdvance d, EFire r, EError (length (sockets w))] = Some w' \<and>
     timers w' = [(next_timer w,
        \<lparr>cb = ReconnectFire, due = now w + d + backoff_delay (reconnectAttempts w), period = None\<rparr>)] \<and>
     reconnectTimeout w' = Some (next_timer w) \<and> heartbeatInterval w' = None \<and>
     reconnectAttempts w' = Suc (reconnectAttempts w) \<and> now w' = now w + d \<and> \<not> isReady w'"
  using assms
  by (simp add: fire_timer_def clear_timer_def reconnect_fire_def connect_def ws_new_def log_def
      set_ready_def on_error_def ws_close_def on_close_def stopHeartbeat_def scheduleReconnect_def
      setTimeout_def set_timer_def settle_def Let_def)

lemma fire_wire:
  assumes "inv w" and "map_of (timers w) i = Some t"
  shows "wire (fire_timer i w) \<noteq> wire w \<Longrightarrow>
     isReady w \<and> (\<exists>s. ws w = Some s \<and> ready_state w s = OPEN \<and>
        wire (fire_timer i w) = wire w @ [(s, stringify (ping (now w)))])"
proof (cases "cb t")
  case HeartbeatTick
  then have "i \<in> set (timer_ids HeartbeatTick (timers w))"
    using map_of_timer_ids [OF assms(2)] by simp
  then have "heartbeatInterval w = Some i"
    using assms(1) by (cases "heartbeatInterval w") (auto simp: inv_def timers_inv_def)
  then have "isReady w" using assms(1) by (simp add: inv_def conn_inv_def)
  then show "wire (fire_timer i w) \<noteq> wire w \<Longrightarrow> ?thesis" using HeartbeatTick assms(2)
    by (auto simp: fire_timer_def heartbeat_tick_def ws_send_def clear_timer_def reschedule_def
        split: option.splits ready_state.splits)
next
  case ReconnectFire
  then show "wire (fire_timer i w) \<noteq> wire w \<Longrightarrow> ?thesis" using assms(2)
    by (auto simp: fire_timer_def reconnect_fire_def clear_timer_def reschedule_def split: option.splits)
qed

text \<open>
  C22: In every reachable state, a timer firing changes what is handed to the transport only by appending one ping, stamped with the current time, on the current socket, and only while the manager is ready and that socket is OPEN.
\<close>

theorem timer_frames_are_pings:
  "reachable u w \<Longrightarrow> step w (EFire i) w' \<Longrightarrow> wire w' \<noteq> wire w \<Longrightarrow>
   isReady w \<and> (\<exists>s. ws w = Some s \<and> ready_state w s = OPEN \<and> wire w' = wire w @ [(s, stringify (ping (now w)))])"
proof -
  assume r: "reachable u w" and s: "step w (EFire i) w'" and d: "wire w' \<noteq> wire w"
  from s obtain t where "map_of (timers w) i = Some t" "w' = fire_timer i w"
    by (auto elim!: step.cases split: option.splits)
  with fire_wire [OF reachable_inv [OF r]] d show ?thesis by blast
qed

lemma heartbeat_periods_demo:
  "\<exists>w'. run demo_open (concat (replicate 2 [EAdvance 20000, EFire 1])) = Some w' \<and>
     wire w' = [(0, stringify (ping 20000)), (0, stringify (ping 40000)), (0, stringify (ping 60000))] \<and> now w' = 60000"
proof -
  have f: "timers demo_open = [(1, \<lparr>cb = HeartbeatTick, due = now demo_open + 20000, period = Some 20000\<rparr>)]"
    "ws demo_open = Some 0" "ready_state demo_open 0 = OPEN"
    and e: "wire demo_open = [(0, stringify (ping 20000))]" "now demo_open = 20000"
    by (simp_all add: demo_open_def eval_defs)
  obtain w' where w': "run demo_open (concat (replicate 2 [EAdvance 20000, EFire 1])) = Some w'"
      "wire w' = wire demo_open @ map (\<lambda>j. (0, stringify (ping (now demo_open + 20000 * Suc j)))) [0..<2]"
      "now w' = now demo_open + 20000 * 2"
    using heartbeat_periods [OF f, of 2] by blast
  have "wire w' = [(0, stringify (ping 20000)), (0, stringify (ping 40000)), (0, stringify (ping 60000))]" "now w' = 60000"
    using w'(2,3) e by (simp_all add: upt_rec)
  with w'(1) show ?thesis by blast
qed

theorem failed_attempt_reschedules_witness:
  "ws_url_ok (url demo) \<and>
   (\<exists>w'. run demo [EAdvance 1000, EFire 2, EError 1] = Some w' \<and>
     timers w' = [(3, \<lparr>cb = ReconnectFire, due = 23000, period = None\<rparr>)] \<and>
     reconnectAttempts w' = 2)"
proof -
  have "timers demo = [(2, \<lparr>cb = ReconnectFire, due = now demo + 1000, period = None\<rparr>)]"
    and "reconnectTimeout demo = Some 2" and "heartbeatInterval demo = None"
    and f: "length (sockets demo) = 1" "next_timer demo = 3" "now demo = 20000"
      "reconnectAttempts demo = 1" and u: "ws_url_ok (url demo)"
    by (simp_all add: demo_def eval_defs)
  then obtain w' where w': "run demo [EAdvance 1000, EFire 2, EError 1] = Some w'"
      "timers w' = [(next_timer demo, \<lparr>cb = ReconnectFire,
         due = now demo + 1000 + backoff_delay (reconnectAttempts demo), period = None\<rparr>)]"
      "reconnectAttempts w' = Suc (reconnectAttempts demo)"
    using failed_attempt_reschedules [of demo 2 1000] by auto
  moreover have "backoff_delay 1 = 2000" by (simp add: backoff_delay_def)
  ultimately show ?thesis using f u by auto
qed

theorem timer_frames_are_pings_witness:
  "reachable ''wss://signal'' demo_due \<and> step demo_due (EFire 1) demo_open \<and>
   isReady demo_due \<and> wire demo_open = wire demo_due @ [(0, stringify (ping 20000))]"
proof -
  have r: "reachable ''wss://signal'' demo_due"
    by (rule run_reachable [OF reachable.start, where es = "[EConnect, EOpen 0, EAdvance 20000]"])
      (simp add: demo_due_def eval_defs)
  have s: "step demo_due (EFire 1) demo_open"
    by (rule step.intros) (simp_all add: demo_due_def demo_open_def eval_defs)
  have d: "wire demo_open \<noteq> wire demo_due" and z: "ws demo_due = Some 0" "now demo_due = 20000"
    by (simp_all add: demo_due_def demo_open_def eval_defs)
  from timer_frames_are_pings [OF r s d] z r s show ?thesis by auto
qed

theorem bad_url_never_connects_witness:
  "\<exists>w. run (init_mgr ''localhost:8080'') [EConnect, ESend msg_join, EAdvance 5000] = Some w \<and>
     reachable ''localhost:8080'' w \<and> \<not> ws_url_ok ''localhost:8080'' \<and>
     sockets w = [] \<and> ws w = None \<and> wire w = [] \<and> timers w = [] \<and>
     connect w = Inl (SyntaxError, log (DConnecting ''localhost:8080'') w) \<and>
     messageQueue w = [msg_join] \<and> DUncaught SyntaxError \<in> set (console w)"
proof -
  have b: "\<not> ws_url_ok ''localhost:8080''"
    by (simp add: ws_url_ok_def url_scheme_def ascii_alpha_def scheme_char_def ascii_lower_def)
  obtain w where r: "run (init_mgr ''localhost:8080'') [EConnect, ESend msg_join, EAdvance 5000] = Some w"
    and q: "messageQueue w = [msg_join]" and c: "DUncaught SyntaxError \<in> set (console w)"
    using b by (simp add: eval_defs init_runtime_def)
  have re: "reachable ''localhost:8080'' w" by (rule run_reachable [OF reachable.start r])
  show ?thesis using r re b q c bad_url_never_connects [OF re b] by blast
qed

theorem heartbeat_pings_every_period_witness:
  "\<exists>w0. run (init_mgr ''wss://signal'') [ESend msg_join, EConnect] = Some w0 \<and>
     reachable ''wss://signal'' w0 \<and> ws w0 = Some 0 \<and> ready_state w0 0 = CONNECTING \<and>
     onOpen w0 = None \<and> timers w0 = [] \<and>
     (\<exists>w'. run w0 (EOpen 0 # concat (replicate 2 [EAdvance 20000, EFire 1])) = Some w' \<and>
       wire w' = [(0, stringify msg_join), (0, stringify (ping 20000)), (0, stringify (ping 40000))])"
proof -
  obtain w0 where r: "run (init_mgr ''wss://signal'') [ESend msg_join, EConnect] = Some w0"
    and f: "ws w0 = Some 0" "ready_state w0 0 = CONNECTING" "onOpen w0 = None" "timers w0 = []"
    "next_timer w0 = 1" "now w0 = 0" "wire w0 = []" "messageQueue w0 = [msg_join]"
    by (simp add: eval_defs init_runtime_def)
  have re: "reachable ''wss://signal'' w0" by (rule run_reachable [OF reachable.start r])
  obtain w' where "run w0 (EOpen 0 # concat (replicate 2 [EAdvance 20000, EFire (next_timer w0)])) = Some w'"
    "wire w' = wire w0 @ map (\<lambda>m. (0, stringify m)) (messageQueue w0) @
       map (\<lambda>j. (0, stringify (ping (now w0 + 20000 * Suc j)))) [0..<2]"
    using heartbeat_pings_every_period [OF re f(1-4), of 2] by blast
  with r re f show ?thesis by (auto simp: upt_rec)
qed

end
