(* ===== verification/Delivery.thy ===== *)
theory Delivery
  imports System "HOL-Library.Sublist"
begin

text \<open>
  Delivery order of the outbound stream over whole runs of the event loop.  The
  stream \<open>outbound\<close> of the Manager theory is what the client has accepted for
  sending: the texts handed to sockets, then the queue.  This theory shows that it
  only grows at its end (no loss, no reordering) in every step but one kind of
  open event, and gives the state invariant this rests on: a ready manager whose
  current socket is OPEN has nothing queued.
\<close>

text \<open>
  \<open>queue_inv\<close>: while the manager is ready and its current socket is OPEN the queue
  is empty.  \<open>sock_pending\<close>: the current socket is absent or still connecting,
  the only states in which \<open>send\<close> throws.
\<close>

definition queue_inv :: "mgr \<Rightarrow> bool" where
  "queue_inv w \<longleftrightarrow>
     (case ws w of None \<Rightarrow> True | Some s \<Rightarrow> isReady w \<and> ready_state w s = OPEN \<longrightarrow> messageQueue w = [])"

definition sock_pending :: "mgr \<Rightarrow> bool" where
  "sock_pending w \<longleftrightarrow> (case ws w of None \<Rightarrow> True | Some s \<Rightarrow> ready_state w s = CONNECTING)"

text \<open>
  The events after which the stream is kept in order: every event but the open
  event of a socket other than the current one, or an open event while an
  \<open>onOpen\<close> hook is set (its messages overtake the backlog).
\<close>

definition orderly :: "mgr \<Rightarrow> event \<Rightarrow> bool" where
  "orderly w e = (case e of EOpen s \<Rightarrow> ws w = Some s \<and> onOpen w = None | _ \<Rightarrow> True)"

fun orderly_run :: "mgr \<Rightarrow> event list \<Rightarrow> bool" where
  "orderly_run w [] = True"
| "orderly_run w (e # es) =
     (orderly w e \<and> (case dispatch e w of None \<Rightarrow> True | Some w' \<Rightarrow> orderly_run w' es))"

subsection \<open>The methods\<close>

lemma sock_pending_queue_inv: "sock_pending w \<Longrightarrow> queue_inv w"
  by (auto simp: sock_pending_def queue_inv_def split: option.splits)

lemma send_exc: "send m w = Inl (e, w') \<Longrightarrow> w' = w \<and> sock_pending w"
  by (auto simp: send_def ws_send_def sock_pending_def split: if_splits option.splits ready_state.splits)

lemma send_grows:
  assumes "queue_inv w"
  shows "queue_inv (state_of (send m w)) \<and> prefix (outbound w) (outbound (state_of (send m w)))"
  using assms
  by (auto simp: send_def ws_send_def queue_inv_def outbound_def log_def
      split: option.splits ready_state.splits)

lemma connect_pending: "ws_url_ok (url w) \<Longrightarrow> connect w = Inr w' \<Longrightarrow> sock_pending w'"
  by (auto simp: connect_ok log_def sock_pending_def sock_state_def)

lemma connect_grows:
  assumes "queue_inv w"
  shows "queue_inv (state_of (connect w)) \<and> outbound (state_of (connect w)) = outbound w"
proof (cases "ws_url_ok (url w)")
  case True
  then show ?thesis using connect_pending [OF True] sock_pending_queue_inv
    by (auto simp: connect_ok outbound_def log_def)
next
  case False
  with assms show ?thesis by (simp add: connect_bad queue_inv_def outbound_def log_def split: option.splits)
qed

lemma run_api_grows:
  "queue_inv w \<Longrightarrow>
   queue_inv (state_of (run_api cs w)) \<and> prefix (outbound w) (outbound (state_of (run_api cs w)))"
proof (induction cs arbitrary: w)
  case Nil
  then show ?case by simp
next
  case (Cons c cs)
  show ?case
  proof (cases c)
    case (ASend m)
    show ?thesis
    proof (cases "send m w")
      case (Inl p)
      with ASend send_grows [OF Cons.prems, of m] show ?thesis by simp
    next
      case (Inr w1)
      with send_grows [OF Cons.prems, of m] Cons.IH [of w1] ASend show ?thesis
        by (auto intro: prefix_order.trans)
    qed
  next
    case AConnect
    show ?thesis
    proof (cases "connect w")
      case (Inl p)
      with AConnect connect_grows [OF Cons.prems] show ?thesis by simp
    next
      case (Inr w1)
      with connect_grows [OF Cons.prems] Cons.IH [of w1] AConnect show ?thesis by auto
    qed
  next
    case (AOnMessage t h)
    have "queue_inv (onMessage t h w)" "outbound (onMessage t h w) = outbound w"
      using Cons.prems by (simp_all add: onMessage_def queue_inv_def outbound_def split: option.splits)
    with Cons.IH [of "onMessage t h w"] AOnMessage show ?thesis by simp
  next
    case (ASetOnOpen c')
    have "queue_inv (w\<lparr>onOpen := c'\<rparr>)" "outbound (w\<lparr>onOpen := c'\<rparr>) = outbound w"
      using Cons.prems by (simp_all add: queue_inv_def outbound_def split: option.splits)
    with Cons.IH [of "w\<lparr>onOpen := c'\<rparr>"] ASetOnOpen show ?thesis by simp
  qed
qed

text \<open>With a URL the constructor accepts, a callback throws only on a pending socket.\<close>

lemma run_api_exc: "ws_url_ok (url w) \<Longrightarrow> run_api cs w = Inl (e, w') \<Longrightarrow> sock_pending w'"
proof (induction cs arbitrary: w)
  case (Cons c cs)
  show ?case
  proof (cases c)
    case (ASend m)
    show ?thesis
    proof (cases "send m w")
      case (Inl p)
      with Cons.prems ASend show ?thesis by (cases p) (auto dest: send_exc)
    next
      case (Inr w1)
      have "url w1 = url w" using quiet_url [OF quiet_send [of w m]] Inr by simp
      with Cons.prems Cons.IH [of w1] ASend Inr show ?thesis by simp
    qed
  next
    case AConnect
    obtain w1 where w1: "connect w = Inr w1" using connect_ok [OF Cons.prems(1)] by blast
    moreover have "url w1 = url w" using connect_fields(4) [of w] w1 by simp
    ultimately show ?thesis using Cons.prems Cons.IH [of w1] AConnect by simp
  next
    case (AOnMessage t h)
    with Cons.prems Cons.IH [of "onMessage t h w"] show ?thesis by (simp add: onMessage_def)
  next
    case (ASetOnOpen c')
    with Cons.prems Cons.IH [of "w\<lparr>onOpen := c'\<rparr>"] show ?thesis by simp
  qed
qed simp

subsection \<open>The handlers\<close>

text \<open>The flush loop, run on a ready manager, ends with an empty queue or throws on a pending socket.\<close>

lemma flush_loop_queue_inv:
  assumes "flush_loop w = Some r"
  shows "isReady w \<longrightarrow> queue_inv (state_of r)"
proof (rule flush_loop.raw_induct [where P = "\<lambda>w r. isReady w \<longrightarrow> queue_inv (state_of r)", OF _ assms])
  fix f w r
  assume IH: "\<And>w r. f w = Some r \<Longrightarrow> isReady w \<longrightarrow> queue_inv (state_of r)"
    and eq: "(case messageQueue w of [] \<Rightarrow> Some (Inr w)
       | m # q \<Rightarrow> (case send m (w\<lparr>messageQueue := q\<rparr>) of Inl p \<Rightarrow> Some (Inl p) | Inr w' \<Rightarrow> f w')) = Some r"
  show "isReady w \<longrightarrow> queue_inv (state_of r)"
  proof
    assume rd: "isReady w"
    show "queue_inv (state_of r)"
    proof (cases "messageQueue w")
      case Nil
      with eq show ?thesis by (auto simp: queue_inv_def split: option.splits)
    next
      case (Cons m q)
      show ?thesis
      proof (cases "send m (w\<lparr>messageQueue := q\<rparr>)")
        case (Inl p)
        with eq Cons show ?thesis by (cases p) (auto dest!: send_exc intro: sock_pending_queue_inv)
      next
        case (Inr w')
        with eq Cons have "f w' = Some r" by simp
        moreover have "isReady w'" using send_ready_keeps_queue [of "w\<lparr>messageQueue := q\<rparr>" m w'] rd Inr
          by simp
        ultimately show ?thesis using IH by blast
      qed
    qed
  qed
qed

lemma drain_queue_inv:
  assumes "isReady w" and "then_opt (flushMessageQueue w) (\<lambda>w3. Some (Inr (startHeartbeat w3))) = Some r"
  shows "queue_inv (state_of r)"
proof -
  obtain r1 where f: "flush_loop (log (DFlushing (length (messageQueue w))) w) = Some r1"
    using assms(2) by (cases "flushMessageQueue w") (auto simp: flushMessageQueue_def)
  have q: "queue_inv (state_of r1)" using flush_loop_queue_inv [OF f] assms(1) by (simp add: log_def)
  show ?thesis
  proof (cases r1)
    case (Inl p)
    with f assms(2) q show ?thesis by (auto simp: flushMessageQueue_def)
  next
    case (Inr w3)
    with f assms(2) q show ?thesis by (auto simp: flushMessageQueue_def queue_inv_def split: option.splits)
  qed
qed

lemma on_open_queue_inv:
  assumes "on_open w = Some r" and "ws_url_ok (url w)"
  shows "queue_inv (state_of r)"
proof -
  let ?w1 = "(log DOpened w)\<lparr>isReady := True, reconnectAttempts := 0\<rparr>"
  let ?r0 = "case onOpen ?w1 of None \<Rightarrow> Inr ?w1 | Some c \<Rightarrow> run_api c ?w1"
  have o: "then_opt (Some ?r0)
       (\<lambda>w2. then_opt (flushMessageQueue w2) (\<lambda>w3. Some (Inr (startHeartbeat w3)))) = Some r"
    using assms by (simp add: on_open_def Let_def)
  show ?thesis
  proof (cases ?r0)
    case (Inl p)
    obtain e w' where p: "p = (e, w')" by (cases p)
    have u1: "ws_url_ok (url ?w1)" using assms(2) by (simp add: log_def)
    obtain c where c: "onOpen ?w1 = Some c" "run_api c ?w1 = Inl (e, w')"
      using Inl p by (auto split: option.splits)
    have "sock_pending w'" by (rule run_api_exc [OF u1 c(2)])
    moreover have "r = Inl (e, w')" using o Inl p by simp
    ultimately show ?thesis by (simp add: sock_pending_queue_inv)
  next
    case (Inr w2)
    have "quiet ?w1 (state_of ?r0)" by (auto simp: quiet_run_api split: option.splits)
    with Inr have "isReady w2" by (simp add: quiet_def)
    with Inr o show ?thesis by (auto intro: drain_queue_inv)
  qed
qed

lemma on_open_orderly:
  assumes "ws w = Some s" and "onOpen w = None" and "ready_state w s = CONNECTING"
  shows "\<exists>w'. on_open (set_ready s OPEN w) = Some (Inr w') \<and> outbound w' = outbound w"
proof -
  let ?w1 = "(log DOpened (set_ready s OPEN w))\<lparr>isReady := True, reconnectAttempts := 0\<rparr>"
  have "s < length (sockets w)" using assms(3) sock_state_live [of "sockets w" s] by simp
  then have "ready_state ?w1 s = OPEN" by (simp add: set_ready_def log_def)
  with assms(1) have "flushMessageQueue ?w1 = Some (Inr ((log (DFlushing (length (messageQueue ?w1))) ?w1)
      \<lparr>wire := wire ?w1 @ map (\<lambda>m. (s, stringify m)) (messageQueue ?w1), messageQueue := []\<rparr>))"
    by (intro flushMessageQueue_open) (simp_all add: set_ready_def log_def)
  with assms(2) show ?thesis
    by (simp add: on_open_def Let_def outbound_def set_ready_def log_def)
qed

lemma on_message_grows:
  assumes "queue_inv w"
  shows "queue_inv (state_of (on_message d w)) \<and> prefix (outbound w) (outbound (state_of (on_message d w)))"
proof -
  have l: "queue_inv (log x w) \<and> outbound (log x w) = outbound w" for x
    using assms by (simp add: queue_inv_def outbound_def log_def split: option.splits)
  show ?thesis
  proof (cases "json_parse d")
    case (Some m)
    then show ?thesis
      using assms l run_api_grows [OF assms]
      by (cases "handler_for w (get_prop ''type'' m)") (simp_all add: on_message_def)
  qed (simp add: on_message_def assms)
qed

lemma on_close_fields [simp]:
  "wire (on_close w) = wire w" "messageQueue (on_close w) = messageQueue w" "\<not> isReady (on_close w)"
  by (simp_all add: on_close_def stopHeartbeat_def scheduleReconnect_def setTimeout_def set_timer_def
      clear_timer_def log_def Let_def split: option.splits prod.splits)

lemma on_close_queue_inv: "queue_inv (on_close w)"
  by (simp add: queue_inv_def split: option.splits)

lemma settle_view: "queue_inv (settle r) = queue_inv (state_of r) \<and> outbound (settle r) = outbound (state_of r)"
  by (cases r) (auto simp: settle_def log_def queue_inv_def outbound_def split: option.splits)

lemma on_error_outbound: "outbound (state_of (on_error w)) = outbound w"
  by (simp add: on_error_def ws_close_def set_ready_def log_def outbound_def Let_def split: option.splits)

lemma set_ready_outbound [simp]: "outbound (set_ready s st w) = outbound w"
  by (simp add: set_ready_def outbound_def)

lemma heartbeat_tick_fields [simp]:
  "ws (heartbeat_tick w) = ws w" "isReady (heartbeat_tick w) = isReady w"
  "sockets (heartbeat_tick w) = sockets w" "messageQueue (heartbeat_tick w) = messageQueue w"
  by (simp_all add: heartbeat_tick_def ws_send_def log_def split: option.splits ready_state.splits)

lemma settle_queue [simp]: "messageQueue (settle x) = messageQueue (state_of x)"
  by (cases x) (auto simp: settle_def log_def)

lemma run_timer_cb_queue: "messageQueue (run_timer_cb k w) = messageQueue w"
  by (cases k) (simp_all add: reconnect_fire_def)

lemma fire_timer_queue: "messageQueue (fire_timer i w) = messageQueue w"
  by (simp add: fire_timer_def run_timer_cb_queue clear_timer_def reschedule_def split: option.splits)

lemma fire_timer_grows:
  assumes "inv w" and "queue_inv w"
  shows "queue_inv (fire_timer i w) \<and> prefix (outbound w) (outbound (fire_timer i w))"
proof (cases "map_of (timers w) i")
  case None
  with assms(2) show ?thesis by (simp add: fire_timer_def)
next
  case (Some t)
  have q: "queue_inv (fire_timer i w)"
  proof (cases "cb t")
    case HeartbeatTick
    with Some assms(2) show ?thesis
      by (simp add: fire_timer_def queue_inv_def clear_timer_def reschedule_def split: option.splits)
  next
    case ReconnectFire
    have "queue_inv (settle (connect w0))" if "queue_inv w0" for w0 :: mgr
      using connect_grows [OF that] by (simp add: settle_view)
    moreover have "queue_inv (w1\<lparr>reconnectTimeout := None\<rparr>)" if "queue_inv w1" for w1 :: mgr
      using that by (simp add: queue_inv_def split: option.splits)
    moreover have "queue_inv (clear_timer i w)" "queue_inv (reschedule i n w)" for n
      using assms(2) by (simp_all add: queue_inv_def clear_timer_def reschedule_def split: option.splits)
    ultimately show ?thesis using Some ReconnectFire
      by (simp add: fire_timer_def reconnect_fire_def split: option.splits)
  qed
  show ?thesis
  proof (cases "wire (fire_timer i w) = wire w")
    case True
    with q show ?thesis by (simp add: outbound_def fire_timer_queue)
  next
    case False
    with fire_wire [OF assms(1) Some] obtain s where
      "isReady w" "ws w = Some s" "ready_state w s = OPEN"
      "wire (fire_timer i w) = wire w @ [(s, stringify (ping (now w)))]" by blast
    with assms(2) q show ?thesis by (simp add: queue_inv_def outbound_def fire_timer_queue)
  qed
qed

subsection \<open>Steps and runs\<close>

lemma step_grows:
  assumes "step w e w'" and "inv w" and "queue_inv w" and "sockets w \<noteq> [] \<longrightarrow> ws_url_ok (url w)"
  shows "queue_inv w' \<and> (orderly w e \<longrightarrow> prefix (outbound w) (outbound w'))"
  using assms(1)
proof (cases rule: step.cases)
  case 1
  note en = \<open>enabled e w\<close> and d = \<open>dispatch e w = Some w'\<close>
  show ?thesis
  proof (cases e)
    case EConnect
    with d connect_grows [OF assms(3)] show ?thesis by (auto simp: settle_view)
  next
    case (ESend m)
    with d send_grows [OF assms(3), of m] show ?thesis by (auto simp: settle_view)
  next
    case (EOnMessage t h)
    with d assms(3) show ?thesis
      by (auto simp: onMessage_def queue_inv_def outbound_def split: option.splits)
  next
    case (ESetOnOpen c)
    with d assms(3) show ?thesis by (auto simp: queue_inv_def outbound_def split: option.splits)
  next
    case (EOpen s)
    from d EOpen obtain r where r: "on_open (set_ready s OPEN w) = Some r" "w' = settle r" by auto
    have "sockets w \<noteq> []" using en EOpen by (auto simp: sock_state_def)
    with assms(4) have "ws_url_ok (url (set_ready s OPEN w))" by (simp add: set_ready_def)
    then have "queue_inv w'" using on_open_queue_inv [OF r(1)] r(2) by (simp add: settle_view)
    moreover have "prefix (outbound w) (outbound w')" if "orderly w e"
    proof -
      from that EOpen have "ws w = Some s" "onOpen w = None" by (simp_all add: orderly_def)
      moreover have "ready_state w s = CONNECTING" using en EOpen by simp
      ultimately obtain w1 where "on_open (set_ready s OPEN w) = Some (Inr w1)" "outbound w1 = outbound w"
        using on_open_orderly by blast
      with r have "r = Inr w1" "outbound w1 = outbound w" by simp_all
      with r(2) show ?thesis by (simp add: settle_view)
    qed
    ultimately show ?thesis by blast
  next
    case (EMessage s x)
    with d on_message_grows [OF assms(3), of x] show ?thesis by (auto simp: settle_view)
  next
    case (EClose s)
    with d show ?thesis by (auto simp: on_close_queue_inv outbound_def set_ready_def)
  next
    case (EError s)
    have "outbound (settle (on_error (set_ready s CLOSED w))) = outbound w"
      by (simp add: settle_view on_error_outbound)
    with d EError show ?thesis by (auto simp: on_close_queue_inv outbound_def)
  next
    case (EFire i)
    with d fire_timer_grows [OF assms(2,3), of i] show ?thesis by simp
  next
    case (EAdvance n)
    with d assms(3) show ?thesis by (auto simp: queue_inv_def outbound_def split: option.splits)
  qed
qed

lemma reachable_queue_inv: "reachable u w \<Longrightarrow> queue_inv w"
proof (induction rule: reachable.induct)
  case start
  show ?case by (simp add: queue_inv_def init_mgr_def init_runtime_def)
next
  case (stepped w e w')
  then show ?case using step_grows reachable_inv reachable_socket_url by blast
qed

text \<open>
  C7: In every reachable state, while the manager is ready and its current socket is OPEN, the outbound queue is empty: a message is queued only while it cannot be sent, and every open event of the current socket drains the queue.
\<close>

theorem queue_empty_while_open:
  "reachable u w \<Longrightarrow> isReady w \<Longrightarrow> ws w = Some s \<Longrightarrow> ready_state w s = OPEN \<Longrightarrow> messageQueue w = []"
  using reachable_queue_inv [of u w] by (simp add: queue_inv_def)

text \<open>
  C6: Along every run from a reachable state in which each open event is that of the current socket with no onOpen hook set, the outbound stream only grows at its end: every text handed to a socket and every queued message stays, in the order it was accepted, and new ones come after it.
\<close>

theorem outbound_in_order:
  "reachable u w \<Longrightarrow> run w es = Some w' \<Longrightarrow> orderly_run w es \<Longrightarrow> prefix (outbound w) (outbound w')"
proof (induction es arbitrary: w)
  case Nil
  then show ?case by simp
next
  case (Cons e es)
  from Cons.prems(2) obtain w1 where st: "step w e w1" and r: "run w1 es = Some w'"
    by (auto intro: step.intros split: if_splits option.splits)
  from Cons.prems(3) st have o: "orderly w e" "orderly_run w1 es"
    by (auto elim!: step.cases)
  have "prefix (outbound w) (outbound w1)"
    using step_grows [OF st reachable_inv [OF Cons.prems(1)] reachable_queue_inv [OF Cons.prems(1)]]
      reachable_socket_url [OF Cons.prems(1)] o(1)
    by blast
  moreover have "prefix (outbound w1) (outbound w')"
    using Cons.IH [OF reachable.stepped [OF Cons.prems(1) st] r o(2)] .
  ultimately show ?case by (rule prefix_order.trans)
qed

theorem queue_empty_while_open_witness:
  "reachable ''wss://signal'' demo_open \<and> isReady demo_open \<and> ws demo_open = Some 0 \<and>
   ready_state demo_open 0 = OPEN \<and> messageQueue demo_open = []"
proof -
  have h: "isReady demo_open" "ws demo_open = Some 0" "ready_state demo_open 0 = OPEN"
    by (simp_all add: demo_open_def eval_defs)
  show ?thesis using demo_open_reachable h queue_empty_while_open [OF demo_open_reachable h] by blast
qed

theorem outbound_in_order_witness:
  "reachable ''wss://signal'' demo_open \<and>
   orderly_run demo_open [EClose 0, ESend msg_join, EAdvance 1000, EFire 2, EOpen 1] \<and>
   (\<exists>w'. run demo_open [EClose 0, ESend msg_join, EAdvance 1000, EFire 2, EOpen 1] = Some w' \<and>
     outbound w' = outbound demo_open @ [stringify msg_join] \<and>
     prefix (outbound demo_open) (outbound w'))"
proof -
  let ?es = "[EClose 0, ESend msg_join, EAdvance 1000, EFire 2, EOpen 1]"
  have o: "orderly_run demo_open ?es"
    by (simp add: orderly_def demo_open_def eval_defs)
  obtain w' where r: "run demo_open ?es = Some w'" and
    ob: "outbound w' = outbound demo_open @ [stringify msg_join]"
    by (simp add: demo_open_def eval_defs outbound_def)
  show ?thesis using demo_open_reachable o r ob outbound_in_order [OF demo_open_reachable r o] by blast
qed

end
