(* ===== verification/UI.thy ===== *)
theory UI
  imports Prelude
begin

text \<open>
  The presentation layer, src/src/UIManager.js: the module's state (the three DOM
  elements it looks up once, the local media stream, the microphone flag and the set
  of participants) as one record, and the methods of the \<open>UIManager\<close> object as
  functions on it.  The DOM is modelled as far as the module touches it: the
  children of the video grid, the text of the mute button, the items of the
  participant list.  A DOM element the page lacks is \<open>None\<close>.  A JavaScript \<open>Set\<close>
  iterates in insertion order, so the participants are a list without duplicates.
  The emoji of the button labels are left out of the strings.
  The click listener the module attaches to the mute button, and sequences of
  calls and clicks, close the theory with the invariants they keep.
\<close>

record video =
  vid :: string
  autoplay :: bool
  playsInline :: bool
  background :: string

text \<open>A media stream, as far as the code reads it: the \<open>enabled\<close> flag of each audio track.\<close>

record stream =
  audioTracks :: "bool list"

record ui =
  videoGrid :: "video list option"
  muteBtn :: "string option"
  participantsList :: "string list option"
  localStream :: "stream option"
  audioEnabled :: bool
  participants :: "string list"

text \<open>
  The module's initialisation: which of the three elements the page has, and the
  text the page gives the mute button.
\<close>

definition init_ui :: "bool \<Rightarrow> string option \<Rightarrow> bool \<Rightarrow> ui" where
  "init_ui has_grid btn has_list =
     \<lparr>videoGrid = (if has_grid then Some [] else None),
      muteBtn = btn,
      participantsList = (if has_list then Some [] else None),
      localStream = None, audioEnabled = True, participants = []\<rparr>"

definition video_id :: "string \<Rightarrow> string" where
  "video_id u = ''video-'' @ u"

text \<open>\<open>videoGrid.appendChild\<close> on a missing grid is a call on \<open>null\<close>.\<close>

definition createVideoElement :: "string \<Rightarrow> ui \<Rightarrow> ui outcome" where
  "createVideoElement u s =
     (case videoGrid s of
        None \<Rightarrow> Inl (TypeError, s)
      | Some vs \<Rightarrow>
          Inr (s\<lparr>videoGrid := Some (vs @
                 [\<lparr>vid = video_id u, autoplay = True, playsInline = True, background = ''black''\<rparr>])\<rparr>))"

text \<open>\<open>document.getElementById\<close> finds the first element with the id, in tree order.\<close>

fun remove_first_id :: "string \<Rightarrow> video list \<Rightarrow> video list" where
  "remove_first_id i [] = []"
| "remove_first_id i (v # vs) = (if vid v = i then vs else v # remove_first_id i vs)"

definition removeVideoElement :: "string \<Rightarrow> ui \<Rightarrow> ui" where
  "removeVideoElement u s = s\<lparr>videoGrid := map_option (remove_first_id (video_id u)) (videoGrid s)\<rparr>"

definition setLocalStream :: "stream option \<Rightarrow> ui \<Rightarrow> ui" where
  "setLocalStream st s = s\<lparr>localStream := st\<rparr>"

definition mic_label :: "bool \<Rightarrow> string" where
  "mic_label on = (if on then ''Mic On'' else ''Mic Off'')"

definition toggleMute :: "ui \<Rightarrow> ui" where
  "toggleMute s =
     (case localStream s of
        None \<Rightarrow> s
      | Some st \<Rightarrow>
          (if audioTracks st = [] then s
           else
             let e = \<not> audioEnabled s
             in s\<lparr>audioEnabled := e,
                  localStream := Some (st\<lparr>audioTracks := (audioTracks st)[0 := e]\<rparr>),
                  muteBtn := map_option (\<lambda>_. mic_label e) (muteBtn s)\<rparr>))"

definition updateParticipantsUI :: "ui \<Rightarrow> ui" where
  "updateParticipantsUI s =
     (case participantsList s of
        None \<Rightarrow> s
      | Some _ \<Rightarrow> s\<lparr>participantsList := Some (map (take 8) (participants s))\<rparr>)"

definition set_add :: "'a \<Rightarrow> 'a list \<Rightarrow> 'a list" where
  "set_add x xs = (if x \<in> set xs then xs else xs @ [x])"

definition addParticipant :: "string \<Rightarrow> ui \<Rightarrow> ui" where
  "addParticipant u s = updateParticipantsUI (s\<lparr>participants := set_add u (participants s)\<rparr>)"

definition removeParticipant :: "string \<Rightarrow> ui \<Rightarrow> ui" where
  "removeParticipant u s = updateParticipantsUI (s\<lparr>participants := removeAll u (participants s)\<rparr>)"

text \<open>
  The module's last statement: when the page has a mute button, a click on it runs
  \<open>UIManager.toggleMute\<close>; without the button no listener exists.
\<close>

definition mute_click :: "ui \<Rightarrow> ui" where
  "mute_click s = (case muteBtn s of None \<Rightarrow> s | Some _ \<Rightarrow> toggleMute s)"

text \<open>
  The calls the application makes into the module and the click of the user, as one
  operation type; an exception a call throws leaves the module state as it was.
\<close>

datatype ui_op =
    UCreateVideo string
  | URemoveVideo string
  | USetStream "stream option"
  | UClickMute
  | UAddParticipant string
  | URemoveParticipant string

fun ui_apply :: "ui_op \<Rightarrow> ui \<Rightarrow> ui" where
  "ui_apply (UCreateVideo u) s = state_of (createVideoElement u s)"
| "ui_apply (URemoveVideo u) s = removeVideoElement u s"
| "ui_apply (USetStream st) s = setLocalStream st s"
| "ui_apply UClickMute s = mute_click s"
| "ui_apply (UAddParticipant u) s = addParticipant u s"
| "ui_apply (URemoveParticipant u) s = removeParticipant u s"

definition ui_run :: "ui_op list \<Rightarrow> ui \<Rightarrow> ui" where
  "ui_run ops s = foldl (\<lambda>s op. ui_apply op s) s ops"

text \<open>The mute button, when present, shows the state of the microphone flag.\<close>

definition label_inv :: "ui \<Rightarrow> bool" where
  "label_inv s \<longleftrightarrow> muteBtn s = None \<or> muteBtn s = Some (mic_label (audioEnabled s))"

text \<open>
  The invariant: the participants have no duplicates and the list on screen, when
  the page has one, shows exactly their first eight characters in insertion order.
\<close>

definition ui_inv :: "ui \<Rightarrow> bool" where
  "ui_inv s \<longleftrightarrow> distinct (participants s) \<and>
     (case participantsList s of None \<Rightarrow> True | Some l \<Rightarrow> l = map (take 8) (participants s))"

text \<open>A page with all three elements and a one-track microphone stream, unmuted.\<close>

definition mic_demo :: ui where
  "mic_demo = (init_ui True (Some ''Mute'') True)
     \<lparr>localStream := Some \<lparr>audioTracks = [True]\<rparr>, muteBtn := Some (mic_label True)\<rparr>"

lemma distinct_set_add [simp]: "distinct (set_add x xs) = distinct xs"
  by (simp add: set_add_def)

lemma set_set_add [simp]: "set (set_add x xs) = insert x (set xs)"
  by (auto simp: set_add_def)

lemma updateParticipantsUI_inv:
  "distinct (participants s) \<Longrightarrow> ui_inv (updateParticipantsUI s)"
  by (simp add: updateParticipantsUI_def ui_inv_def split: option.splits)

lemma participants_update [simp]:
  "participants (updateParticipantsUI s) = participants s"
  by (simp add: updateParticipantsUI_def split: option.splits)

lemma ui_apply_inv:
  assumes "ui_inv s"
  shows "ui_inv (ui_apply op s)"
proof -
  have d: "distinct (participants s)" using assms by (simp add: ui_inv_def)
  show ?thesis
  proof (cases op)
    case (UAddParticipant u)
    then show ?thesis using d by (simp add: addParticipant_def updateParticipantsUI_inv)
  next
    case (URemoveParticipant u)
    then show ?thesis
      using d by (simp add: removeParticipant_def updateParticipantsUI_inv distinct_removeAll)
  next
    case UClickMute
    then show ?thesis
      using assms by (simp add: mute_click_def toggleMute_def ui_inv_def Let_def split: option.splits)
  qed (use assms in \<open>simp_all add: setLocalStream_def removeVideoElement_def createVideoElement_def
         ui_inv_def split: option.splits\<close>)
qed

text \<open>
  C34: From the initial page, every sequence of UIManager calls and mute-button clicks keeps the participants duplicate-free and the rendered list equal to the first eight characters of each participant, in insertion order.
\<close>

theorem ui_run_keeps_inv: "ui_inv (ui_run ops (init_ui g b l))"
proof -
  have "ui_inv s \<Longrightarrow> ui_inv (foldl (\<lambda>s op. ui_apply op s) s ops)" for s
    by (induction ops arbitrary: s) (simp_all add: ui_apply_inv)
  moreover have "ui_inv (init_ui g b l)" by (simp add: ui_inv_def init_ui_def)
  ultimately show ?thesis by (simp add: ui_run_def)
qed

text \<open>
  C37: Once the mute button shows the label of the microphone flag, it keeps showing it through every sequence of UIManager calls and clicks; on a page without the button no listener is registered, so no sequence of calls and clicks changes the flag.
\<close>

theorem mute_label_tracks_flag:
  "(label_inv s \<longrightarrow> label_inv (ui_run ops s)) \<and>
   (muteBtn s = None \<longrightarrow> muteBtn (ui_run ops s) = None \<and> audioEnabled (ui_run ops s) = audioEnabled s)"
proof -
  have step: "label_inv (ui_apply op s)" if "label_inv s" for op s
    using that
    by (cases op) (auto simp: label_inv_def mute_click_def toggleMute_def setLocalStream_def
        removeVideoElement_def createVideoElement_def addParticipant_def removeParticipant_def
        updateParticipantsUI_def Let_def split: option.splits)
  have nobtn: "muteBtn (ui_apply op s) = None \<and> audioEnabled (ui_apply op s) = audioEnabled s"
    if "muteBtn s = None" for op s
    using that
    by (cases op) (auto simp: mute_click_def setLocalStream_def removeVideoElement_def createVideoElement_def
        addParticipant_def removeParticipant_def updateParticipantsUI_def Let_def split: option.splits)
  have "label_inv s \<Longrightarrow> label_inv (ui_run ops s)"
    unfolding ui_run_def by (induction ops arbitrary: s) (simp_all add: step)
  moreover have "muteBtn s = None \<Longrightarrow> muteBtn (ui_run ops s) = None \<and> audioEnabled (ui_run ops s) = audioEnabled s"
    unfolding ui_run_def by (induction ops arbitrary: s) (simp_all add: nobtn)
  ultimately show ?thesis by blast
qed

theorem participant_add_remove:
  "u \<notin> set (participants s) \<Longrightarrow> participants (removeParticipant u (addParticipant u s)) = participants s"
  by (simp add: addParticipant_def removeParticipant_def set_add_def)

text \<open>
  C35: With a stream whose first audio track agrees with audioEnabled and a button showing the matching label, one toggle flips the flag, sets the first track to the new flag and shows the new label, and a second toggle restores the whole UI state.
\<close>

theorem toggleMute_involutive:
  assumes "localStream s = Some st" and "audioTracks st \<noteq> []"
    and "hd (audioTracks st) = audioEnabled s"
    and "muteBtn s = None \<or> muteBtn s = Some (mic_label (audioEnabled s))"
  shows "audioEnabled (toggleMute s) = (\<not> audioEnabled s) \<and>
    localStream (toggleMute s) = Some (st\<lparr>audioTracks := (\<not> audioEnabled s) # tl (audioTracks st)\<rparr>) \<and>
    muteBtn (toggleMute s) = map_option (\<lambda>_. mic_label (\<not> audioEnabled s)) (muteBtn s) \<and>
    toggleMute (toggleMute s) = s"
proof -
  obtain t ts where tr: "audioTracks st = t # ts" using assms(2) by (cases "audioTracks st") auto
  have "toggleMute (toggleMute s) = s" using assms tr by (cases s, cases st) (auto simp: toggleMute_def Let_def)
  moreover have "audioEnabled (toggleMute s) = (\<not> audioEnabled s)"
    "localStream (toggleMute s) = Some (st\<lparr>audioTracks := (\<not> audioEnabled s) # tl (audioTracks st)\<rparr>)"
    "muteBtn (toggleMute s) = map_option (\<lambda>_. mic_label (\<not> audioEnabled s)) (muteBtn s)"
    using assms tr by (simp_all add: toggleMute_def Let_def)
  ultimately show ?thesis by blast
qed

text \<open>
  C36: audioEnabled is module state that setLocalStream does not reset: after muting, a new enabled stream is not muted by the next toggle, which only flips the flag back.
\<close>

theorem toggleMute_stale_flag:
  assumes "\<not> audioEnabled s"
  shows "localStream (toggleMute (setLocalStream (Some \<lparr>audioTracks = True # ts\<rparr>) s)) =
      Some \<lparr>audioTracks = True # ts\<rparr> \<and>
    audioEnabled (toggleMute (setLocalStream (Some \<lparr>audioTracks = True # ts\<rparr>) s))"
  using assms by (simp add: toggleMute_def setLocalStream_def Let_def)

text \<open>
  C38: createVideoElement does not check for an existing element, so after creating the video of a user twice, removeVideoElement removes only one of them.
\<close>

theorem video_duplicate_survives_remove:
  assumes "videoGrid s = Some []"
  shows "map_option (map vid) (videoGrid (removeVideoElement u
      (state_of (then_exc (createVideoElement u s) (createVideoElement u))))) = Some [video_id u]"
  using assms by (simp add: createVideoElement_def removeVideoElement_def)

theorem mute_label_tracks_flag_witness:
  "label_inv mic_demo \<and>
   label_inv (ui_run [UClickMute, USetStream (Some \<lparr>audioTracks = [True, True]\<rparr>), UClickMute, UClickMute]
     mic_demo) \<and>
   label_inv (setLocalStream (Some \<lparr>audioTracks = [True]\<rparr>) (init_ui True None True)) \<and>
   muteBtn (setLocalStream (Some \<lparr>audioTracks = [True]\<rparr>) (init_ui True None True)) = None \<and>
   audioEnabled (ui_run [UClickMute, UClickMute, UClickMute]
     (setLocalStream (Some \<lparr>audioTracks = [True]\<rparr>) (init_ui True None True))) = True"
proof -
  let ?p = "setLocalStream (Some \<lparr>audioTracks = [True]\<rparr>) (init_ui True None True)"
  have h: "label_inv mic_demo" by (simp add: label_inv_def mic_demo_def init_ui_def)
  have n: "label_inv ?p" "muteBtn ?p = None" "audioEnabled ?p = True"
    by (simp_all add: label_inv_def setLocalStream_def init_ui_def)
  show ?thesis
    using h n mute_label_tracks_flag [of mic_demo "[UClickMute, USetStream (Some \<lparr>audioTracks = [True, True]\<rparr>), UClickMute, UClickMute]"]
      mute_label_tracks_flag [of ?p "[UClickMute, UClickMute, UClickMute]"] by simp
qed

theorem participant_add_remove_witness:
  "''alice'' \<notin> set (participants (init_ui True (Some ''Mute'') True)) \<and>
   participants (removeParticipant ''alice'' (addParticipant ''alice'' (init_ui True (Some ''Mute'') True))) =
   participants (init_ui True (Some ''Mute'') True)"
proof -
  have h: "''alice'' \<notin> set (participants (init_ui True (Some ''Mute'') True))" by (simp add: init_ui_def)
  show ?thesis using h participant_add_remove [OF h] by blast
qed

theorem toggleMute_involutive_witness:
  "localStream mic_demo = Some \<lparr>audioTracks = [True]\<rparr> \<and> audioTracks \<lparr>audioTracks = [True]\<rparr> \<noteq> [] \<and>
   hd (audioTracks \<lparr>audioTracks = [True]\<rparr>) = audioEnabled mic_demo \<and>
   (muteBtn mic_demo = None \<or> muteBtn mic_demo = Some (mic_label (audioEnabled mic_demo))) \<and>
   \<not> audioEnabled (toggleMute mic_demo) \<and> localStream (toggleMute mic_demo) = Some \<lparr>audioTracks = [False]\<rparr> \<and>
   toggleMute (toggleMute mic_demo) = mic_demo"
proof -
  have h: "localStream mic_demo = Some \<lparr>audioTracks = [True]\<rparr>" "audioTracks \<lparr>audioTracks = [True]\<rparr> \<noteq> []"
    "hd (audioTracks \<lparr>audioTracks = [True]\<rparr>) = audioEnabled mic_demo"
    "muteBtn mic_demo = None \<or> muteBtn mic_demo = Some (mic_label (audioEnabled mic_demo))"
    by (simp_all add: mic_demo_def init_ui_def)
  have e: "audioEnabled mic_demo" by (simp add: mic_demo_def init_ui_def)
  show ?thesis using h e toggleMute_involutive [OF h] by simp
qed

theorem toggleMute_stale_flag_witness:
  "\<not> audioEnabled (mic_demo\<lparr>audioEnabled := False\<rparr>) \<and>
   localStream (toggleMute (setLocalStream (Some \<lparr>audioTracks = [True]\<rparr>) (mic_demo\<lparr>audioEnabled := False\<rparr>))) =
     Some \<lparr>audioTracks = [True]\<rparr> \<and>
   audioEnabled (toggleMute (setLocalStream (Some \<lparr>audioTracks = [True]\<rparr>) (mic_demo\<lparr>audioEnabled := False\<rparr>)))"
proof -
  have h: "\<not> audioEnabled (mic_demo\<lparr>audioEnabled := False\<rparr>)" by simp
  show ?thesis using h toggleMute_stale_flag [OF h, of "[]"] by blast
qed

theorem video_duplicate_survives_remove_witness:
  "videoGrid (init_ui True (Some ''Mute'') True) = Some [] \<and>
   map_option (map vid) (videoGrid (removeVideoElement ''alice''
      (state_of (then_exc (createVideoElement ''alice'' (init_ui True (Some ''Mute'') True))
        (createVideoElement ''alice''))))) = Some [video_id ''alice'']"
proof -
  have h: "videoGrid (init_ui True (Some ''Mute'') True) = Some []" by (simp add: init_ui_def)
  show ?thesis using h video_duplicate_survives_remove [OF h] by blast
qed

end
