(* ===== verification/Spec2Isabelle.thy ===== *)
theory Spec2Isabelle
  imports Prelude Json Backoff Runtime Manager System Delivery UI
begin

text \<open>
  \<^bold>\<open>A verified model of the WebRTC signalling client.\<close>

  \<^bold>\<open>The program.\<close>  Two ES modules.  src/src/WebSocketManager.js is the core: a
  class that owns one WebSocket to the signalling server, queues outbound messages
  while the socket is not ready and drains them on open, dispatches inbound JSON
  messages to handlers registered per message type, pings every 20 s while open,
  and reconnects after a close with exponential backoff (1 s doubling, capped at
  15 s).  src/src/UIManager.js is the presentation layer: video elements, the
  mute button and the participant list.  The two interact only through the
  application, which is not in the repository: it calls \<open>connect\<close>, \<open>send\<close>
  and \<open>onMessage\<close> and sets the \<open>onOpen\<close> hook.

  \<^bold>\<open>The theories.\<close>
  \<^item> Prelude: the exceptions the code raises (\<open>js_error\<close>), the \<open>outcome\<close> of an operation
    that may throw (the state at the throw is kept, as JavaScript keeps every effect
    made before it), its sequencing \<open>then_exc\<close>/\<open>then_opt\<close>, and JavaScript
    truthiness of timer handles (\<open>handle_set\<close>).
  \<^item> Json: the browser's \<open>JSON.stringify\<close> and \<open>JSON.parse\<close>, modelled from
    ECMA-262 since the code only calls them.  A message is a JSON value
    (\<open>json\<close>); \<open>stringify\<close> prints its tokens (\<open>tokens_of\<close>) with
    QuoteJSONString's escapes (\<open>quote_char\<close>); \<open>json_parse\<close> is a lexer
    (\<open>lex\<close>, terminating by the length of the text) followed by a deterministic
    pushdown automaton (\<open>tstep\<close>, run by \<open>run_tokens\<close>) that builds objects in
    JavaScript's property order (\<open>obj_set\<close>: a repeated key overwrites in place,
    array-index keys come first in ascending order).  Proved: the round trip
    \<open>json_parse (stringify v) = Some v\<close> for every well-formed value
    (\<open>json_roundtrip\<close>), and that every parsed value is well-formed
    (\<open>json_parse_wf\<close>).
  \<^item> Backoff: \<open>backoff_delay\<close>, the delay expression of \<open>scheduleReconnect\<close>
    (line 114), with its closed form, bounds and monotonicity.
  \<^item> Runtime: the browser the code runs in, modelled from the spec's Transport
    Adapter and the WebSocket and timer semantics, not from repository code:
    sockets with their \<open>readyState\<close> (\<open>ws_new\<close>, the constructor, which throws
    SyntaxError unless \<open>ws_url_ok\<close> accepts the URL: the scheme the URL parser
    reads, by \<open>url_scheme\<close>, is ws, wss, http or https, or the text is relative,
    and it has no fragment; \<open>ws_send\<close> which throws while
    CONNECTING and drops once CLOSING, \<open>ws_close\<close>), the text frames handed to
    the network (\<open>wire\<close>), the timer table (\<open>setTimeout\<close>, \<open>setInterval\<close>,
    \<open>clear_timer\<close>, \<open>reschedule\<close>), the clock, the console, and \<open>settle\<close>,
    the browser reporting an exception that ends a task.  Its operations are
    polymorphic in the record extension, so the manager uses them on its own state.
  \<^item> Manager: the class.  \<open>mgr\<close> extends the runtime record with the nine fields
    of the constructor; one definition per method (\<open>connect\<close>, \<open>send\<close>,
    \<open>onMessage\<close>, \<open>flushMessageQueue\<close> with its loop \<open>flush_loop\<close>,
    \<open>startHeartbeat\<close>, \<open>stopHeartbeat\<close>, \<open>scheduleReconnect\<close>) and per handler
    (\<open>on_open\<close>, \<open>on_message\<close>, \<open>on_close\<close>, \<open>on_error\<close>, and the timer
    callbacks \<open>heartbeat_tick\<close> and \<open>reconnect_fire\<close>).  A callback of the
    application is modelled by the public calls it makes (\<open>api\<close>, run by
    \<open>run_api\<close>).
  \<^item> System: the manager in the browser's event loop.  \<open>event\<close> is one task (a call
    of the application, an open/message/close/error event of any socket the manager
    created, a timer firing, the clock advancing), \<open>enabled\<close> the browser's guard
    on it, \<open>dispatch\<close> the handler the code attached, \<open>step\<close> and \<open>reachable\<close>
    the resulting transition system, \<open>run\<close> an executable run of a list of events.
  \<^item> Delivery: the order of the outbound stream over runs of the event loop.
    \<open>queue_inv\<close> (a ready manager on an OPEN socket has nothing queued) and
    \<open>orderly\<close>/\<open>orderly_run\<close> (each open event is that of the current socket,
    with no \<open>onOpen\<close> hook set) are specifications, not code; the lemmas take each
    method and handler in turn (\<open>send_grows\<close>, \<open>run_api_grows\<close>,
    \<open>flush_loop_queue_inv\<close>, \<open>on_open_orderly\<close>, \<open>fire_timer_grows\<close>) up to one
    step (\<open>step_grows\<close>), then to runs by induction.
  \<^item> UI: the module state of UIManager.js as a record and each method of the
    \<open>UIManager\<close> object as a function on it; the click listener the module
    registers when the mute button exists (\<open>mute_click\<close>, lines 70-73); the calls
    and clicks as one operation type (\<open>ui_op\<close>, \<open>ui_apply\<close>) and their
    sequences (\<open>ui_run\<close>).
  \<^item> this theory: end-to-end scenarios of the spec, evaluated on the whole model.

  \<^bold>\<open>What is proved.\<close>  (The claim ids are those of the \<open>text\<close> block before
  each theorem.)
  \<^item> Invariant (System): in every reachable state the pending heartbeat intervals and
    reconnect timeouts are exactly the ones the manager holds handles to, so at most
    one of each (\<open>at_most_one_timer_each\<close>); a heartbeat runs only while the
    manager is ready, every 20000 ms (\<open>heartbeat_only_while_ready\<close>); a timer puts
    a frame on the wire only as one ping on the current OPEN socket while ready
    (\<open>timer_frames_are_pings\<close>).  The proof is
    one preservation lemma per operation (\<open>stopHeartbeat_inv\<close>,
    \<open>startHeartbeat_inv\<close>, \<open>scheduleReconnect_inv\<close>, \<open>on_open_inv\<close>,
    \<open>on_close_inv\<close>, \<open>fire_timer_inv\<close>), the frame relation \<open>quiet\<close> for the
    operations that leave the timers alone, then rule induction (\<open>reachable_inv\<close>).
  \<^item> Liveness (System): from every reachable state with no heartbeat and a reconnect
    pending, letting the clock reach the timer and firing it starts a new connection
    (\<open>reconnect_eventually_connects\<close>); an attempt that fails schedules the next
    one with the next backoff delay, so the loop never stops
    (\<open>failed_attempt_reschedules\<close>); from a reachable state whose current socket
    is connecting, its open event starts the heartbeat (\<open>startHeartbeat\<close>, 20000
    ms) and, while nothing else happens, it pings once per period after the
    drained backlog, for any number of periods (\<open>heartbeat_pings_every_period\<close>,
    from the helper \<open>heartbeat_periods\<close>).
  \<^item> Outbound queue (Manager, and this theory): the drain sends the backlog in order
    and empties it (\<open>flush_sends_queue_in_order\<close>); \<open>send\<close> refines the enqueue
    of a FIFO queue on the abstract stream \<open>outbound\<close> = frames sent, then the
    queue (\<open>send_refines_fifo\<close>); any sequence of messages sent while
    disconnected reaches the transport in order once the socket opens
    (\<open>queued_sends_delivered_in_order\<close>); the loop terminates when the manager is
    ready (the lemma \<open>flush_loop_terminates\<close>) and provably never returns when it
    is not (\<open>flush_loop_hangs\<close>); while ready the \<open>while\<close>/\<open>shift\<close> loop
    equals a total structural recursion over the queue, error path included
    (\<open>flush_loop_equiv_ref\<close>, against the reference \<open>flush_ref\<close>).
  \<^item> Wire format (Manager): what \<open>send\<close> hands the socket parses back to the
    message sent (\<open>send_text_parses_back\<close>); the error paths of \<open>onmessage\<close>: SyntaxError
    exactly for text JSON.parse rejects, TypeError for \<open>null\<close>, and a logged
    unknown type for values without a string \<open>type\<close> (\<open>on_message_error_paths\<close>).
  \<^item> Rejected URL (System): \<open>this.url\<close> never changes (\<open>reachable_url\<close>); with a
    URL the constructor rejects, no reachable state has a socket, a timer or a
    frame, and every \<open>connect()\<close> throws SyntaxError before it assigns
    \<open>this.ws\<close> or schedules a reconnect (\<open>bad_url_never_connects\<close>, witnessed
    with \<open>localhost:8080\<close>, whose scheme is \<open>localhost\<close>).  The claims that a
    connection is made (\<open>connect_adds_live_socket\<close>,
    \<open>reconnect_eventually_connects\<close>, the scenarios) assume a URL the
    constructor accepts; the reachable states with a socket have one
    (\<open>reachable_socket_url\<close>).
  \<^item> Delivery order (Delivery): in every reachable state a ready manager on an OPEN
    socket has an empty queue (\<open>queue_empty_while_open\<close>); along every run in
    which each open event is that of the current socket with no hook set, the
    outbound stream only grows at its end, so nothing accepted is lost or reordered
    (\<open>outbound_in_order\<close>).  The two excluded kinds of open event are exactly the
    findings \<open>on_open_callback_first\<close> (the hook's messages overtake the backlog)
    and \<open>double_connect_loses_queued\<close> (a stale socket's open drains the queue
    into a CONNECTING socket).
  \<^item> Termination (System): the handler of every event returns
    (\<open>dispatch_returns\<close>), the open handler included, because it sets \<open>isReady\<close>
    before it drains the queue, so the event loop is never blocked.
  \<^item> Reconnect policy: the delay's closed form and the spec's values 1000, 2000,
    4000, 8000, 15000 (\<open>backoff_delay_closed_form\<close>), its bounds
    (\<open>backoff_delay_bounds\<close>), what \<open>scheduleReconnect\<close> arms
    (\<open>scheduleReconnect_fresh\<close>) and its idempotence
    (\<open>scheduleReconnect_idempotent\<close>); every close schedules a reconnect
    (\<open>on_close_schedules_reconnect\<close>).
  \<^item> Handlers: the open handler's effect (\<open>on_open_drains_queue\<close>); a message is
    dispatched to the handler last registered for its type
    (\<open>register_then_dispatch\<close>); a heartbeat tick pings the current socket
    exactly when it is OPEN and never throws (\<open>heartbeat_tick_pings_current\<close>); the spec's
    scenarios run end to end (\<open>scenario_queued_then_open\<close>,
    \<open>scenario_backoff_doubles\<close>, \<open>scenario_malformed_then_dispatch\<close>).
  \<^item> Findings, proved as theorems: the \<open>onOpen\<close> hook's messages overtake the
    backlog (\<open>on_open_callback_first\<close>); a stale \<open>isReady\<close> loses messages
    (\<open>send_stale_ready_loses\<close>), and a second \<open>connect\<close> before the first
    socket opens loses the queued backlog (\<open>double_connect_loses_queued\<close>);
    \<open>connect\<close> is not idempotent: it appends a new socket and leaves every
    previous socket in the state it had (\<open>connect_adds_live_socket\<close>); an error of an old socket closes the
    current one (\<open>stale_error_closes_current\<close>); the microphone flag survives a
    new stream (\<open>toggleMute_stale_flag\<close>) and duplicate video elements survive a
    removal (\<open>video_duplicate_survives_remove\<close>).
  \<^item> UI: its invariant holds after every sequence of calls and clicks from the
    initial page (\<open>ui_run_keeps_inv\<close>, from the per-operation lemma
    \<open>ui_apply_inv\<close>), the mute button's label keeps tracking the flag
    (\<open>mute_label_tracks_flag\<close>), and on a page without the button no click has
    an effect on the flag; one toggle flips the flag, the first track and the label,
    and a second restores the whole state (\<open>toggleMute_involutive\<close>);
    the lemma \<open>participant_add_remove\<close> gives the add/remove round trip.

  \<^bold>\<open>Choices.\<close>  JavaScript numbers that matter here are small naturals (delays,
  attempts, handles), so they are \<open>nat\<close>; \<open>Math.pow\<close> and \<open>Math.min\<close> agree with
  the unbounded computation for every attempt count (beyond exponent 1023 the power
  is Infinity and the minimum is still 15000).  The flush loop is a
  \<open>partial_function (option)\<close>: \<open>None\<close> is a task that never returns, and the
  event loop takes no step for it.  Time is explicit: a timer fires only when due
  and the clock never passes a pending timer.  No fuel is used.  JSON numbers are
  integers and strings are lists of 8-bit characters: the messages of the client
  (types, room names, SDP text, timestamps) are of this kind.

  \<^bold>\<open>Not modelled.\<close>  The server and network delivery (the wire records what is
  handed to a socket); \<open>JSON.stringify\<close> failures (the modelled messages are JSON
  values, so it is total); JSON fractions, exponents, whitespace inside
  \<open>stringify\<close>'s output and \<open>\u\<close> escapes above 0xFF (the lexer rejects them, so
  such frames take the SyntaxError path of the model); URL-parser failures on the host
  or port part (\<open>ws_url_ok\<close> checks the scheme and the fragment only), and the
  removal of tabs, newlines and surrounding spaces the parser does first;
  exceptions thrown by the application's own callbacks (a callback is the list of
  public calls it makes, \<open>api\<close>); the wording of console output; DOM nodes beyond
  those UIManager.js touches, and the value \<open>createVideoElement\<close> returns.

  \<^bold>\<open>Plan.\<close>  Next: JSON fractions and full Unicode strings; properties of
  callbacks that use the whole public interface (a handler that registers handlers
  or replaces the hook); host parsing of the WebSocket URL.
\<close>

text \<open>
  C25: Messages A and B sent while disconnected, then connect and open: the transport receives A, then B, then the first ping 20000 ms later.
\<close>

theorem scenario_queued_then_open:
  "ws_url_ok u \<Longrightarrow> \<exists>w. run (init_mgr u) [ESend a, ESend b, EConnect, EOpen 0, EAdvance 20000, EFire 1] = Some w \<and>
     wire w = [(0, stringify a), (0, stringify b), (0, stringify (ping 20000))]"
  by (simp add: eval_defs)

text \<open>
  C26: After an unexpected close 5000 ms into an open connection the reconnect fires 1000 ms later; if that attempt fails the next is scheduled 2000 ms after it.
\<close>

theorem scenario_backoff_doubles:
  "ws_url_ok u \<Longrightarrow> \<exists>w. run (init_mgr u) [EConnect, EOpen 0, EAdvance 5000, EClose 0] = Some w \<and>
     timers w = [(2, \<lparr>cb = ReconnectFire, due = 6000, period = None\<rparr>)] \<and>
     (\<exists>w'. run w [EAdvance 1000, EFire 2, EError 1] = Some w' \<and>
        timers w' = [(3, \<lparr>cb = ReconnectFire, due = 8000, period = None\<rparr>)])"
  by (simp add: eval_defs)

text \<open>
  C27: A malformed inbound frame raises an uncaught SyntaxError but leaves the manager intact: a following well-formed message is dispatched to its handler.
\<close>

theorem scenario_malformed_then_dispatch:
  "ws_url_ok u \<Longrightarrow> \<exists>w. run (init_mgr u)
       [EOnMessage ''offer'' (\<lambda>m. [ASend r]), EConnect, EOpen 0,
        EMessage 0 ''{'', EMessage 0 (stringify (JObj [(''type'', JStr ''offer''), (''sdp'', JStr ''v=0'')]))] =
       Some w \<and>
     wire w = [(0, stringify r)] \<and> DUncaught SyntaxError \<in> set (console w)"
  by (simp add: eval_defs onMessage_def handler_for_def json_parse_def lex_stringify run_tokens_of
      wf_obj_def key_before_def index_of_def get_prop_def json_ws_def punct_def start_val_def
      json_digit_def del: tokens_of.simps)

text \<open>
  C5: For every sequence of messages sent while disconnected, connecting and the socket opening hands exactly those messages to the transport, in the same order, with no loss or duplication, and leaves the queue empty.
\<close>

theorem queued_sends_delivered_in_order:
  "ws_url_ok u \<Longrightarrow> \<exists>w. run (init_mgr u) (map ESend ms @ [EConnect, EOpen 0]) = Some w \<and>
     wire w = map (\<lambda>m. (0, stringify m)) ms \<and> messageQueue w = [] \<and> isReady w"
proof -
  assume u: "ws_url_ok u"
  let ?w1 = "(init_mgr u)\<lparr>console := map DQueued ms, messageQueue := ms\<rparr>"
  have r1: "run (init_mgr u) (map ESend ms) = Some ?w1"
    using run_sends_queued [of "init_mgr u" ms] by (simp add: init_mgr_def)
  let ?w2 = "set_ready 0 OPEN (state_of (connect ?w1))"
  have o: "onOpen ?w2 = None" "ws ?w2 = Some 0" "ready_state ?w2 0 = OPEN"
    using u by (simp_all add: connect_ok log_def set_ready_def init_mgr_def sock_state_def)
  obtain w' where w': "on_open ?w2 = Some (Inr w')" "isReady w'"
      "wire w' = wire ?w2 @ map (\<lambda>m. (0, stringify m)) (messageQueue ?w2)" "messageQueue w' = []"
    using on_open_no_hook [OF o] by (simp add: log_def)
  have "run ?w1 [EConnect, EOpen 0] = Some w'"
    using w'(1) u by (simp add: connect_ok log_def init_mgr_def settle_def)
  then have "run (init_mgr u) (map ESend ms @ [EConnect, EOpen 0]) = Some w'"
    using r1 by (simp add: run_append)
  moreover have "wire w' = map (\<lambda>m. (0, stringify m)) ms"
    using w'(3) u by (simp add: connect_ok log_def set_ready_def init_mgr_def)
  ultimately show ?thesis using w'(2,4) by blast
qed

theorem scenario_queued_then_open_witness:
  "ws_url_ok ''wss://signal'' \<and>
   (\<exists>w. run (init_mgr ''wss://signal'') [ESend msg_join, ESend (ping 7), EConnect, EOpen 0, EAdvance 20000, EFire 1] =
      Some w \<and> wire w = [(0, stringify msg_join), (0, stringify (ping 7)), (0, stringify (ping 20000))])"
  using scenario_queued_then_open [of "''wss://signal''" msg_join "ping 7"] by simp

theorem scenario_backoff_doubles_witness:
  "ws_url_ok ''wss://signal'' \<and>
   (\<exists>w. run (init_mgr ''wss://signal'') [EConnect, EOpen 0, EAdvance 5000, EClose 0] = Some w \<and>
     timers w = [(2, \<lparr>cb = ReconnectFire, due = 6000, period = None\<rparr>)] \<and>
     (\<exists>w'. run w [EAdvance 1000, EFire 2, EError 1] = Some w' \<and>
        timers w' = [(3, \<lparr>cb = ReconnectFire, due = 8000, period = None\<rparr>)]))"
  using scenario_backoff_doubles [of "''wss://signal''"] by simp

theorem scenario_malformed_then_dispatch_witness:
  "ws_url_ok ''wss://signal'' \<and>
   (\<exists>w. run (init_mgr ''wss://signal'')
       [EOnMessage ''offer'' (\<lambda>m. [ASend msg_join]), EConnect, EOpen 0,
        EMessage 0 ''{'', EMessage 0 (stringify (JObj [(''type'', JStr ''offer''), (''sdp'', JStr ''v=0'')]))] =
       Some w \<and>
     wire w = [(0, stringify msg_join)] \<and> DUncaught SyntaxError \<in> set (console w))"
  using scenario_malformed_then_dispatch [of "''wss://signal''" msg_join] by simp

theorem queued_sends_delivered_in_order_witness:
  "ws_url_ok ''wss://signal'' \<and>
   (\<exists>w. run (init_mgr ''wss://signal'') (map ESend [msg_join, ping 3] @ [EConnect, EOpen 0]) = Some w \<and>
     wire w = map (\<lambda>m. (0, stringify m)) [msg_join, ping 3] \<and> messageQueue w = [] \<and> isReady w)"
  using queued_sends_delivered_in_order [of "''wss://signal''" "[msg_join, ping 3]"] by simp

end
